theory Spec2Isabelle
  imports Main "HOL-Library.Word" "HOL-Library.FSet" "HOL-Library.Sublist"
begin

section \<open>The server history module: data model\<close>

text \<open>
  The development follows \<^verbatim>\<open>include/ServerHistory.h\<close> and \<^verbatim>\<open>src/ServerHistory.cc\<close>.
  A C++ exception is a value: an operation of the module returns \<open>Returned s\<close> when it
  returns normally with the module in state \<open>s\<close>, and \<open>Threw e s\<close> when the exception \<open>e\<close>
  leaves it, \<open>s\<close> being the state of the module at the \<^verbatim>\<open>throw\<close>. Keeping the state in both
  cases is what lets a theorem say that a failed call changed nothing.
\<close>

datatype error =
  logic_error string   \<comment> \<open>\<^verbatim>\<open>ChimeraTK::logic_error\<close> with its message\<close>
| out_of_range         \<comment> \<open>\<^verbatim>\<open>std::out_of_range\<close>, thrown by \<^verbatim>\<open>std::vector::at\<close>\<close>
| undefined_behaviour  \<comment> \<open>an iterator moved or dereferenced outside its range\<close>

datatype 'a outcome = Returned 'a | Threw error 'a

fun state_of :: "'a outcome \<Rightarrow> 'a" where
  "state_of (Returned s) = s"
| "state_of (Threw e s) = s"

fun has_thrown :: "'a outcome \<Rightarrow> bool" where
  "has_thrown (Returned s) = False"
| "has_thrown (Threw e s) = True"

text \<open>
  The value kinds: the keys of \<^verbatim>\<open>TemplateUserTypeMapNoVoid\<close>, in the order in which
  \<^verbatim>\<open>boost::fusion::for_each\<close> visits the map. The element type is a type parameter \<open>'v\<close> of
  the model, standing for the elements of all kinds: the module never computes with an
  element, it only moves them from an input into a buffer.
\<close>

datatype UserType =
  Int8 | UInt8 | Int16 | UInt16 | Int32 | UInt32 | Int64 | UInt64
| Float | Double | String | Boolean

definition userTypes :: "UserType list" where
  "userTypes = [Int8, UInt8, Int16, UInt16, Int32, UInt32, Int64, UInt64,
                Float, Double, String, Boolean]"

type_synonym TransferElementID = nat

text \<open>
  \<^verbatim>\<open>ArrayPushInput<UserType>{owner, name, unit, nElements, description, tags}\<close>. The
  handle holds the value last received, \<^verbatim>\<open>nElements\<close> elements long, so
  \<^verbatim>\<open>getNElements()\<close> is the length of that value and \<^verbatim>\<open>operator[]\<close> below
  \<^verbatim>\<open>getNElements()\<close> is always in range.
\<close>

record 'v ArrayPushInput =
  in_id :: TransferElementID
  in_name :: string
  in_tags :: "string set"
  in_value :: "'v list"

definition getId :: "'v ArrayPushInput \<Rightarrow> TransferElementID" where
  "getId a = in_id a"

definition getNElements :: "'v ArrayPushInput \<Rightarrow> nat" where
  "getNElements a = length (in_value a)"

text \<open>
  \<^verbatim>\<open>ArrayOutput<T>{owner, name, unit, nElements, description, tags}\<close>: the buffer is
  the array the output publishes, \<^verbatim>\<open>begin()\<close> to \<^verbatim>\<open>end()\<close>.
\<close>

record 'b ArrayOutput =
  out_name :: string
  out_description :: string
  out_tags :: "string set"
  buffer :: "'b list"

record 'v HistoryEntry =
  data :: "'v ArrayOutput list"
  timeStamp :: "64 word ArrayOutput list"
  withTimeStamps :: bool

text \<open>
  What the module publishes. \<^verbatim>\<open>write()\<close> on an output sends its buffer together with the
  validity of the module, which is faulty exactly while the data fault counter is not zero.
\<close>

datatype 'v payload = Data "'v list" | Stamps "64 word list"

record 'v publication =
  pub_name :: string
  pub_payload :: "'v payload"
  pub_faulty :: bool

text \<open>
  The module. The names of the fields are those of the class without the leading
  underscore; \<open>moduleName\<close> is what \<^verbatim>\<open>getName()\<close> returns, \<open>written\<close> is the sequence of
  publications so far and \<open>dataFaultCounter\<close> the counter behind
  \<^verbatim>\<open>incrementDataFaultCounter()\<close>. \<^verbatim>\<open>size_t\<close> is \<open>nat\<close>: the module only counts up to
  a number of elements or of buffer slots that exist in memory.
\<close>

record 'v ServerHistory =
  moduleName :: string
  dataFaultCounter :: nat
  written :: "'v publication list"
  accessorListMap :: "UserType \<Rightarrow> ('v ArrayPushInput \<times> 'v HistoryEntry) list"
  nameListMap :: "UserType \<Rightarrow> string list"
  overallVariableList :: "string fset"
  historyLength :: nat
  enbaleTimeStamps :: bool
  prefix_str :: string
  inputTag :: string

text \<open>
  What the module takes from the framework without this repository defining it: the
  string of \<^verbatim>\<open>RegisterPath(prefix) / name\<close>, the string of the \<^verbatim>\<open>RegisterPath\<close> made from
  a string, and the value-initialised element of each kind, with which the framework fills
  a new buffer.
\<close>

record 'v framework =
  pathJoin :: "string \<Rightarrow> string \<Rightarrow> string"
  toRegisterPath :: "string \<Rightarrow> string"
  valueInit :: "UserType \<Rightarrow> 'v"

section \<open>Naming and tagging\<close>

text \<open>\<^verbatim>\<open>std::to_string\<close> of a \<^verbatim>\<open>size_t\<close>: the decimal digits, most significant first.\<close>

definition digit :: "nat \<Rightarrow> char" where
  "digit d = ''0123456789'' ! d"

fun to_string :: "nat \<Rightarrow> string" where
  "to_string n = (if n < 10 then [digit n] else to_string (n div 10) @ [digit (n mod 10)])"

declare to_string.simps [simp del]

text \<open>
  Lines 87 to 94 of \<^verbatim>\<open>getAccessor\<close>: the tag given to every input and output the module
  creates. The suffix \<^verbatim>\<open>_module\<close> is appended when the name of the module, not the tag
  computed from it, is the input tag.
\<close>

definition serverHistoryPVTag :: "string \<Rightarrow> string \<Rightarrow> string" where
  "serverHistoryPVTag getName inTag =
     (let t = getName @ ''_internal''
      in if getName = inTag then t @ ''_module'' else t)"

section \<open>Registration\<close>

text \<open>
  A new output of \<open>n\<close> elements with one tag; the framework gives it a buffer of \<open>n\<close>
  value-initialised elements. A new input likewise holds \<open>n\<close> value-initialised elements
  until a value arrives, and \<open>tid\<close> is the identity the framework gives it.
\<close>

definition newOutput :: "string \<Rightarrow> nat \<Rightarrow> string \<Rightarrow> string \<Rightarrow> 'b \<Rightarrow> 'b ArrayOutput" where
  "newOutput nm n descr tag z =
     \<lparr>out_name = nm, out_description = descr, out_tags = {tag}, buffer = replicate n z\<rparr>"

definition newInput :: "TransferElementID \<Rightarrow> string \<Rightarrow> nat \<Rightarrow> string \<Rightarrow> 'v \<Rightarrow> 'v ArrayPushInput" where
  "newInput tid nm n tag z =
     \<lparr>in_id = tid, in_name = nm, in_tags = {tag}, in_value = replicate n z\<rparr>"

definition timeStampDescription :: string where
  "timeStampDescription = ''Time stamps for entries in the history buffer''"

definition quote :: string where
  "quote = [CHR 0x27]"

text \<open>The body of the loop of lines 113 to 122, for the element \<open>i\<close> of an array.\<close>

definition emplace_element ::
  "string \<Rightarrow> nat \<Rightarrow> bool \<Rightarrow> string \<Rightarrow> 'v \<Rightarrow> 'v HistoryEntry \<Rightarrow> nat \<Rightarrow> 'v HistoryEntry" where
  "emplace_element historyName len stamps tag z ent i =
     (let e1 = ent\<lparr>data := data ent @
                 [newOutput (historyName @ ''_'' @ to_string i) len [] tag z]\<rparr>
      in if stamps
         then e1\<lparr>timeStamp := timeStamp e1 @
                 [newOutput (historyName @ ''_'' @ to_string i @ ''_timeStamps'') len
                    timeStampDescription tag 0]\<rparr>
         else e1)"

text \<open>Lines 95 to 123: the history entry of a variable of \<open>nElements\<close> elements.\<close>

definition newEntry ::
  "string \<Rightarrow> nat \<Rightarrow> bool \<Rightarrow> string \<Rightarrow> 'v \<Rightarrow> nat \<Rightarrow> 'v HistoryEntry" where
  "newEntry historyName len stamps tag z nElements =
     (let e0 = \<lparr>data = [], timeStamp = [], withTimeStamps = stamps\<rparr>
      in if nElements = 1
         then (let e1 = e0\<lparr>data := data e0 @ [newOutput historyName len [] tag z]\<rparr>
               in if stamps
                  then e1\<lparr>timeStamp := timeStamp e1 @
                          [newOutput (historyName @ ''_timeStamps'') len
                             timeStampDescription tag 0]\<rparr>
                  else e1)
         else foldl (emplace_element historyName len stamps tag z) e0 [0..<nElements])"

text \<open>
  \<^verbatim>\<open>getAccessor<UserType>(variableName, nElements)\<close>; the kind \<open>ut\<close> is the template
  argument.
\<close>

definition getAccessor ::
  "'v framework \<Rightarrow> TransferElementID \<Rightarrow> UserType \<Rightarrow> string \<Rightarrow> nat \<Rightarrow>
   'v ServerHistory \<Rightarrow> 'v ServerHistory outcome" where
  "getAccessor fw tid ut variableName nElements s =
     (if variableName |\<in>| overallVariableList s
      then Threw (logic_error (''Cannot add '' @ quote @ variableName @ quote @
                    '' to History since a variable with that name is already registered.'')) s
      else
        (let s1 = s\<lparr>overallVariableList := finsert variableName (overallVariableList s)\<rparr>;
             historyName = pathJoin fw (prefix_str s1) variableName;
             tag = serverHistoryPVTag (moduleName s1) (inputTag s1);
             inp = newInput tid variableName nElements tag (valueInit fw ut);
             ent = newEntry historyName (historyLength s1) (enbaleTimeStamps s1) tag
                     (valueInit fw ut) nElements;
             s2 = s1\<lparr>accessorListMap :=
                       (accessorListMap s1)(ut := accessorListMap s1 ut @ [(inp, ent)])\<rparr>
         in Returned (s2\<lparr>nameListMap := (nameListMap s2)(ut := nameListMap s2 ut @ [variableName])\<rparr>)))"

text \<open>
  What the visitor receives for a process variable: its fully qualified path, the value
  type and the number of elements of its first node (a process variable of the model has
  a node, and \<^verbatim>\<open>callForTypeNoVoid\<close> dispatches on a value type that is one of the kinds),
  and its tags. A \<^verbatim>\<open>RegisterPath\<close> is the string it converts to.
\<close>

record ProcessVariableProxy =
  getFullyQualifiedPath :: string
  getValueType :: UserType
  getNumberOfElements :: nat
  getTags :: "string set"

type_synonym RegisterPath = string

definition addVariableFromModel ::
  "'v framework \<Rightarrow> TransferElementID \<Rightarrow> ProcessVariableProxy \<Rightarrow> RegisterPath \<Rightarrow> bool \<Rightarrow>
   'v ServerHistory \<Rightarrow> 'v ServerHistory outcome" where
  "addVariableFromModel fw tid pv submodule checkTag s =
     (let name = getFullyQualifiedPath pv;
          type = getValueType pv;
          len = getNumberOfElements pv
      in if checkTag \<and> inputTag s \<notin> getTags pv then Returned s
         else if submodule \<noteq> ''/'' \<and> \<not> prefix (submodule @ ''/'') name then Returned s
         else if name |\<in>| overallVariableList s
         then Threw (logic_error (''ServerHistory: Variable name '' @ quote @ name @ quote @
                       '' already taken.'')) s
         else getAccessor fw tid type name len s)"

text \<open>A loop whose body may throw: the first exception ends it.\<close>

fun for_each :: "('x \<Rightarrow> 'a \<Rightarrow> 'a outcome) \<Rightarrow> 'x list \<Rightarrow> 'a \<Rightarrow> 'a outcome" where
  "for_each body [] a = Returned a"
| "for_each body (x # xs) a =
     (case body x a of Returned a' \<Rightarrow> for_each body xs a' | Threw e a' \<Rightarrow> Threw e a')"

text \<open>
  \<^verbatim>\<open>addSource(source, submodule)\<close>. \<open>pvs\<close> is what the adjacent search of the model of
  the source yields: its process variables, each with the identity of the input handle
  the framework makes for it.
\<close>

definition addSource ::
  "'v framework \<Rightarrow> (ProcessVariableProxy \<times> TransferElementID) list \<Rightarrow>
   string \<Rightarrow> 'v ServerHistory \<Rightarrow> 'v ServerHistory outcome" where
  "addSource fw pvs submodule s =
     for_each (\<lambda>(pv, tid). addVariableFromModel fw tid pv (toRegisterPath fw submodule) False)
       pvs s"

text \<open>
  The constructor. \<open>dir\<close> is the result of the search for the neighbour directory and of
  \<^verbatim>\<open>visitByPath(".")\<close> on it: \<open>None\<close> when the path is not found (\<^verbatim>\<open>found\<close> is false and
  the visitor never runs), otherwise the process variables of the directory in
  breadth-first order. The filter \<^verbatim>\<open>keepTag(_inputTag)\<close> selects those the visitor sees.
  The vector \<^verbatim>\<open>pvs\<close> of the constructor stays empty, so its loop does nothing; an empty
  variable list only prints a message.
\<close>

definition notFoundMessage :: string where
  "notFoundMessage = ''Path passed to BaseDAQ<TRIGGERTYPE>::addSource() not found!''"

definition initial ::
  "string \<Rightarrow> nat \<Rightarrow> string \<Rightarrow> bool \<Rightarrow> string \<Rightarrow> 'v ServerHistory" where
  "initial name len historyTag enableTimeStamps pre =
     \<lparr>moduleName = name, dataFaultCounter = 0, written = [],
      accessorListMap = (\<lambda>ut. []), nameListMap = (\<lambda>ut. []), overallVariableList = {||},
      historyLength = len, enbaleTimeStamps = enableTimeStamps, prefix_str = pre,
      inputTag = historyTag\<rparr>"

definition construct ::
  "'v framework \<Rightarrow> (ProcessVariableProxy \<times> TransferElementID) list option \<Rightarrow>
   string \<Rightarrow> nat \<Rightarrow> string \<Rightarrow> bool \<Rightarrow> string \<Rightarrow> 'v ServerHistory outcome" where
  "construct fw dir name len historyTag enableTimeStamps pre =
     (let s0 = initial name len historyTag enableTimeStamps pre
      in case dir of
           None \<Rightarrow> Threw (logic_error notFoundMessage) s0
         | Some pvs \<Rightarrow>
             for_each (\<lambda>(pv, tid). addVariableFromModel fw tid pv (toRegisterPath fw []) True)
               (filter (\<lambda>(pv, tid). historyTag \<in> getTags pv) pvs) s0)"

definition getNumberOfVariables :: "'v ServerHistory \<Rightarrow> nat" where
  "getNumberOfVariables s = fcard (overallVariableList s)"

section \<open>The run phase\<close>

text \<open>
  \<^verbatim>\<open>std::rotate(begin, begin + 1, end)\<close> followed by the assignment to
  \<^verbatim>\<open>*(end - 1)\<close>, on a buffer that is not empty.
\<close>

definition rotate_write :: "'b list \<Rightarrow> 'b \<Rightarrow> 'b list" where
  "rotate_write b v = (rotate1 b)[length b - 1 := v]"

definition publish :: "bool \<Rightarrow> ('b list \<Rightarrow> 'v payload) \<Rightarrow> 'b ArrayOutput \<Rightarrow> 'v publication" where
  "publish faulty mk out =
     \<lparr>pub_name = out_name out, pub_payload = mk (buffer out), pub_faulty = faulty\<rparr>"

text \<open>
  The body of the loop of lines 135 to 148 for the element \<open>i\<close> of the input \<open>inp\<close>:
  \<^verbatim>\<open>at(i)\<close> throws outside the vector, and on an empty buffer \<^verbatim>\<open>begin() + 1\<close> and
  \<^verbatim>\<open>end() - 1\<close> are outside the range. The loop runs \<open>i\<close> below \<^verbatim>\<open>getNElements()\<close>, so
  the element \<open>i\<close> of the input exists. \<open>now i\<close> is the clock, in seconds, read for this
  element; \<open>faulty\<close> is the validity the module writes with.
\<close>

fun update_element ::
  "(nat \<Rightarrow> 64 word) \<Rightarrow> bool \<Rightarrow> 'v ArrayPushInput \<Rightarrow> nat \<Rightarrow>
   'v HistoryEntry \<times> 'v publication list \<Rightarrow> ('v HistoryEntry \<times> 'v publication list) outcome" where
  "update_element now faulty inp i (ent, w) =
     (if length (data ent) \<le> i then Threw out_of_range (ent, w)
      else if buffer (data ent ! i) = [] then Threw undefined_behaviour (ent, w)
      else
        (let d = (data ent ! i)\<lparr>buffer := rotate_write (buffer (data ent ! i)) (in_value inp ! i)\<rparr>;
             ent1 = ent\<lparr>data := (data ent)[i := d]\<rparr>;
             w1 = w @ [publish faulty Data d]
         in if \<not> withTimeStamps ent1 then Returned (ent1, w1)
            else if length (timeStamp ent1) \<le> i then Threw out_of_range (ent1, w1)
            else if buffer (timeStamp ent1 ! i) = [] then Threw undefined_behaviour (ent1, w1)
            else
              (let t = (timeStamp ent1 ! i)
                         \<lparr>buffer := rotate_write (buffer (timeStamp ent1 ! i)) (now i)\<rparr>
               in Returned (ent1\<lparr>timeStamp := (timeStamp ent1)[i := t]\<rparr>,
                            w1 @ [publish faulty Stamps t]))))"

declare update_element.simps [simp del]

fun map_outcome :: "('a \<Rightarrow> 'b) \<Rightarrow> 'a outcome \<Rightarrow> 'b outcome" where
  "map_outcome f (Returned a) = Returned (f a)"
| "map_outcome f (Threw e a) = Threw e (f a)"

text \<open>
  \<^verbatim>\<open>Update::operator()\<close> on the accessor list of one kind: every accessor of the list is
  looked at, and each one whose input has the identity \<open>tid\<close> is updated.
\<close>

fun Update_list ::
  "(nat \<Rightarrow> 64 word) \<Rightarrow> bool \<Rightarrow> TransferElementID \<Rightarrow>
   ('v ArrayPushInput \<times> 'v HistoryEntry) list \<Rightarrow> 'v publication list \<Rightarrow>
   (('v ArrayPushInput \<times> 'v HistoryEntry) list \<times> 'v publication list) outcome" where
  "Update_list now faulty tid [] w = Returned ([], w)"
| "Update_list now faulty tid ((inp, ent) # rest) w =
     (if getId inp = tid
      then (case for_each (update_element now faulty inp) [0..<getNElements inp] (ent, w) of
              Threw e (ent', w') \<Rightarrow> Threw e ((inp, ent') # rest, w')
            | Returned (ent', w') \<Rightarrow>
                map_outcome (\<lambda>(r, w''). ((inp, ent') # r, w''))
                  (Update_list now faulty tid rest w'))
      else map_outcome (\<lambda>(r, w'). ((inp, ent) # r, w')) (Update_list now faulty tid rest w))"

definition Update ::
  "(nat \<Rightarrow> 64 word) \<Rightarrow> TransferElementID \<Rightarrow> UserType \<Rightarrow> 'v ServerHistory \<Rightarrow>
   'v ServerHistory outcome" where
  "Update now tid ut s =
     map_outcome (\<lambda>(l, w). s\<lparr>accessorListMap := (accessorListMap s)(ut := l), written := w\<rparr>)
       (Update_list now (0 < dataFaultCounter s) tid (accessorListMap s ut) (written s))"

text \<open>
  A change notification, as \<^verbatim>\<open>readAny()\<close> delivers it: the identity of the input that
  changed, the value that arrived and the clock during its handling. \<^verbatim>\<open>readAny()\<close> puts
  the value into the input with that identity and returns the identity.
\<close>

record 'v notification =
  note_id :: TransferElementID
  note_value :: "'v list"
  note_time :: "nat \<Rightarrow> 64 word"

definition readAny :: "'v notification \<Rightarrow> 'v ServerHistory \<Rightarrow> 'v ServerHistory" where
  "readAny n s =
     s\<lparr>accessorListMap := (\<lambda>ut. map (\<lambda>(inp, ent).
          if getId inp = note_id n then (inp\<lparr>in_value := note_value n\<rparr>, ent) else (inp, ent))
        (accessorListMap s ut))\<rparr>"

text \<open>
  One turn of the loop of \<^verbatim>\<open>mainLoop\<close>, and the loop on the notifications that arrive;
  after the last of them the loop is waiting in \<^verbatim>\<open>readAny()\<close>.
\<close>

definition mainLoop_body :: "'v notification \<Rightarrow> 'v ServerHistory \<Rightarrow> 'v ServerHistory outcome" where
  "mainLoop_body n s = for_each (Update (note_time n) (note_id n)) userTypes (readAny n s)"

definition mainLoop :: "'v notification list \<Rightarrow> 'v ServerHistory \<Rightarrow> 'v ServerHistory outcome" where
  "mainLoop ns s = for_each mainLoop_body ns s"

text \<open>
  \<^verbatim>\<open>prepare\<close>. \<^verbatim>\<open>writeAll()\<close> of the framework writes every output of the module once;
  the outputs of the module are those of its history entries. The data fault counter
  changes here only: the validity of what the inputs receive is outside the model.
\<close>

definition incrementDataFaultCounter :: "'v ServerHistory \<Rightarrow> 'v ServerHistory" where
  "incrementDataFaultCounter s = s\<lparr>dataFaultCounter := dataFaultCounter s + 1\<rparr>"

definition decrementDataFaultCounter :: "'v ServerHistory \<Rightarrow> 'v ServerHistory" where
  "decrementDataFaultCounter s = s\<lparr>dataFaultCounter := dataFaultCounter s - 1\<rparr>"

definition outputs_of ::
  "bool \<Rightarrow> 'v ArrayPushInput \<times> 'v HistoryEntry \<Rightarrow> 'v publication list" where
  "outputs_of faulty acc =
     map (publish faulty Data) (data (snd acc)) @ map (publish faulty Stamps) (timeStamp (snd acc))"

definition allOutputs :: "bool \<Rightarrow> 'v ServerHistory \<Rightarrow> 'v publication list" where
  "allOutputs faulty s =
     concat (map (\<lambda>ut. concat (map (outputs_of faulty) (accessorListMap s ut))) userTypes)"

definition writeAll :: "'v ServerHistory \<Rightarrow> 'v ServerHistory" where
  "writeAll s = s\<lparr>written := written s @ allOutputs (0 < dataFaultCounter s) s\<rparr>"

definition noVariablesMessage :: string where
  "noVariablesMessage =
     ''No variables are connected to the ServerHistory module. Did you use the correct tag or connect a Device?''"

definition prepare :: "'v ServerHistory \<Rightarrow> 'v ServerHistory outcome" where
  "prepare s =
     (if getNumberOfVariables s = 0 then Threw (logic_error noVariablesMessage) s
      else Returned (decrementDataFaultCounter (writeAll (incrementDataFaultCounter s))))"


section \<open>Notions the properties are stated with\<close>

text \<open>
  The identities of the input handles of the registry, over all kinds. The framework gives
  every handle an identity of its own; for the registry that is \<open>uniqueIds\<close>: two places
  with the same identity are the same place.
\<close>

definition inputIds :: "'v ServerHistory \<Rightarrow> TransferElementID set" where
  "inputIds s = (\<Union>ut \<in> set userTypes. (\<lambda>acc. getId (fst acc)) ` set (accessorListMap s ut))"

definition uniqueIds :: "'v ServerHistory \<Rightarrow> bool" where
  "uniqueIds s =
     (\<forall>ut \<in> set userTypes. \<forall>ut' \<in> set userTypes.
        \<forall>i < length (accessorListMap s ut). \<forall>j < length (accessorListMap s ut').
          getId (fst (accessorListMap s ut ! i)) = getId (fst (accessorListMap s ut' ! j)) \<longrightarrow>
          ut = ut' \<and> i = j)"

text \<open>
  The outcome that stands for a step outside a buffer, after which the program has no
  defined behaviour.
\<close>

fun is_undefined :: "'a outcome \<Rightarrow> bool" where
  "is_undefined (Threw undefined_behaviour a) = True"
| "is_undefined other = False"

text \<open>
  The layout of the outputs of the registry: for every accessor, the name and the number
  of slots of each data and time stamp buffer and whether time stamps are kept. The
  properties of the number and of the length of the buffers are read off the layout.
\<close>

definition outputLayout :: "'b ArrayOutput \<Rightarrow> string \<times> nat" where
  "outputLayout d = (out_name d, length (buffer d))"

definition entryLayout ::
  "'v HistoryEntry \<Rightarrow> (string \<times> nat) list \<times> (string \<times> nat) list \<times> bool" where
  "entryLayout ent =
     (map outputLayout (data ent), map outputLayout (timeStamp ent), withTimeStamps ent)"

definition layoutOf ::
  "'v ServerHistory \<Rightarrow> UserType \<Rightarrow> ((string \<times> nat) list \<times> (string \<times> nat) list \<times> bool) list" where
  "layoutOf s ut = map (\<lambda>acc. entryLayout (snd acc)) (accessorListMap s ut)"

definition noEmptyBuffer :: "(string \<times> nat) list \<times> (string \<times> nat) list \<times> bool \<Rightarrow> bool" where
  "noEmptyBuffer lay = (list_all (\<lambda>p. 0 < snd p) (fst lay) \<and> list_all (\<lambda>p. 0 < snd p) (fst (snd lay)))"

definition layoutDefined :: "'v ServerHistory \<Rightarrow> bool" where
  "layoutDefined s = list_all (\<lambda>ut. list_all noEmptyBuffer (layoutOf s ut)) userTypes"

definition allBuffersHaveLength :: "nat \<Rightarrow> 'v ServerHistory \<Rightarrow> bool" where
  "allBuffersHaveLength len s =
     (\<forall>ut \<in> set userTypes. \<forall>acc \<in> set (accessorListMap s ut).
        (\<forall>d \<in> set (data (snd acc)). length (buffer d) = len) \<and>
        (\<forall>t \<in> set (timeStamp (snd acc)). length (buffer t) = len))"

definition outputCounts :: "'v ServerHistory \<Rightarrow> UserType \<Rightarrow> (nat \<times> nat) list" where
  "outputCounts s ut =
     map (\<lambda>acc. (length (data (snd acc)), length (timeStamp (snd acc)))) (accessorListMap s ut)"

text \<open>
  What a turn of the loop is to do, written without the loops. \<open>handled k\<close> is a history
  entry after the elements below \<open>k\<close> of a new value have been put into their buffers, and
  \<open>handledPubs k\<close> what has been published for them. An accessor is ready when it has one
  data buffer per element of its input, one time stamp buffer per element if it keeps time
  stamps, and no empty buffer. \<open>stepAccessor\<close> and \<open>stepPubs\<close> are the effect of a
  notification on one accessor, \<open>stepModule\<close> its effect on the module, and a module
  accepts a notification when every accessor with the identity of the notification is ready
  for its value.
\<close>

definition rotatedData :: "'v list \<Rightarrow> 'v HistoryEntry \<Rightarrow> nat \<Rightarrow> 'v ArrayOutput" where
  "rotatedData vals ent i =
     (data ent ! i)\<lparr>buffer := rotate_write (buffer (data ent ! i)) (vals ! i)\<rparr>"

definition rotatedStamp :: "(nat \<Rightarrow> 64 word) \<Rightarrow> 'v HistoryEntry \<Rightarrow> nat \<Rightarrow> 64 word ArrayOutput" where
  "rotatedStamp now ent i =
     (timeStamp ent ! i)\<lparr>buffer := rotate_write (buffer (timeStamp ent ! i)) (now i)\<rparr>"

definition handled ::
  "nat \<Rightarrow> (nat \<Rightarrow> 64 word) \<Rightarrow> 'v list \<Rightarrow> 'v HistoryEntry \<Rightarrow> 'v HistoryEntry" where
  "handled k now vals ent =
     ent\<lparr>data := map (\<lambda>i. if i < k then rotatedData vals ent i else data ent ! i)
                    [0..<length (data ent)],
         timeStamp := map (\<lambda>i. if i < k \<and> withTimeStamps ent then rotatedStamp now ent i
                                 else timeStamp ent ! i)
                    [0..<length (timeStamp ent)]\<rparr>"

definition handledPubs ::
  "nat \<Rightarrow> bool \<Rightarrow> (nat \<Rightarrow> 64 word) \<Rightarrow> 'v list \<Rightarrow> 'v HistoryEntry \<Rightarrow> 'v publication list" where
  "handledPubs k faulty now vals ent =
     concat (map (\<lambda>i. publish faulty Data (rotatedData vals ent i) #
                       (if withTimeStamps ent then [publish faulty Stamps (rotatedStamp now ent i)]
                        else []))
               [0..<k])"

definition entryReady :: "'v ArrayPushInput \<times> 'v HistoryEntry \<Rightarrow> bool" where
  "entryReady acc =
     (length (data (snd acc)) = getNElements (fst acc)
      \<and> (withTimeStamps (snd acc) \<longrightarrow> length (timeStamp (snd acc)) = getNElements (fst acc))
      \<and> noEmptyBuffer (entryLayout (snd acc)))"

definition deliver ::
  "'v notification \<Rightarrow> 'v ArrayPushInput \<times> 'v HistoryEntry \<Rightarrow> 'v ArrayPushInput \<times> 'v HistoryEntry" where
  "deliver n acc =
     (if getId (fst acc) = note_id n then ((fst acc)\<lparr>in_value := note_value n\<rparr>, snd acc) else acc)"

definition turnAccessor ::
  "(nat \<Rightarrow> 64 word) \<Rightarrow> TransferElementID \<Rightarrow> 'v ArrayPushInput \<times> 'v HistoryEntry \<Rightarrow>
   'v ArrayPushInput \<times> 'v HistoryEntry" where
  "turnAccessor now tid acc =
     (if getId (fst acc) = tid
      then (fst acc, handled (getNElements (fst acc)) now (in_value (fst acc)) (snd acc))
      else acc)"

definition turnPubs ::
  "bool \<Rightarrow> (nat \<Rightarrow> 64 word) \<Rightarrow> TransferElementID \<Rightarrow> 'v ArrayPushInput \<times> 'v HistoryEntry \<Rightarrow>
   'v publication list" where
  "turnPubs faulty now tid acc =
     (if getId (fst acc) = tid
      then handledPubs (getNElements (fst acc)) faulty now (in_value (fst acc)) (snd acc)
      else [])"

definition stepAccessor ::
  "'v notification \<Rightarrow> 'v ArrayPushInput \<times> 'v HistoryEntry \<Rightarrow> 'v ArrayPushInput \<times> 'v HistoryEntry" where
  "stepAccessor n acc = turnAccessor (note_time n) (note_id n) (deliver n acc)"

definition stepPubs ::
  "bool \<Rightarrow> 'v notification \<Rightarrow> 'v ArrayPushInput \<times> 'v HistoryEntry \<Rightarrow> 'v publication list" where
  "stepPubs faulty n acc = turnPubs faulty (note_time n) (note_id n) (deliver n acc)"

definition accepts :: "'v ServerHistory \<Rightarrow> 'v notification \<Rightarrow> bool" where
  "accepts s n =
     (\<forall>ut \<in> set userTypes. \<forall>acc \<in> set (accessorListMap s ut).
        getId (fst acc) = note_id n \<longrightarrow> entryReady (deliver n acc))"

definition stepModule :: "'v notification \<Rightarrow> 'v ServerHistory \<Rightarrow> 'v ServerHistory" where
  "stepModule n s =
     s\<lparr>accessorListMap := (\<lambda>ut. map (stepAccessor n) (accessorListMap s ut)),
       written := written s @
         concat (map (\<lambda>ut. concat (map (stepPubs (0 < dataFaultCounter s) n)
                                      (accessorListMap s ut))) userTypes)\<rparr>"

text \<open>
  A small installation for the concrete instances below, after the test application: a
  module \<^verbatim>\<open>historyTest\<close> with 20 slots per buffer, the tag \<^verbatim>\<open>history\<close> and the prefix
  \<^verbatim>\<open>History\<close>; the scalar \<^verbatim>\<open>/Dummy/out\<close> of the test module, registered under the identity
  7; a second scalar of the same kind under the identity 8; the observation of a value
  of the first; and the module \<^verbatim>\<open>history\<close> of the array test with its array of three
  elements.
\<close>

definition example_framework :: "int framework" where
  "example_framework =
     \<lparr>pathJoin = (\<lambda>p n. ''/'' @ p @ n), toRegisterPath = (\<lambda>p. ''/'' @ p),
      valueInit = (\<lambda>ut. 0)\<rparr>"

definition example_pv :: ProcessVariableProxy where
  "example_pv = \<lparr>getFullyQualifiedPath = ''/Dummy/out'', getValueType = Int32,
                  getNumberOfElements = 1, getTags = {''history''}\<rparr>"

definition untagged_pv :: ProcessVariableProxy where
  "untagged_pv = \<lparr>getFullyQualifiedPath = ''/Dummy/in'', getValueType = Int32,
                   getNumberOfElements = 1, getTags = {}\<rparr>"

definition example_module :: "int ServerHistory" where
  "example_module = initial ''historyTest'' 20 ''history'' False ''History''"

definition example_registered :: "int ServerHistory" where
  "example_registered =
     state_of (addVariableFromModel example_framework 7 example_pv ''/'' True example_module)"

definition stamped_module :: "int ServerHistory" where
  "stamped_module = initial ''historyTest'' 20 ''history'' True ''History''"

definition example_two :: "int ServerHistory" where
  "example_two =
     state_of (getAccessor example_framework 8 Int32 ''/Dummy/other'' 1 example_registered)"

definition observed :: "int \<Rightarrow> int notification" where
  "observed v = \<lparr>note_id = 7, note_value = [v], note_time = (\<lambda>i. 0)\<rparr>"

definition array_module :: "int ServerHistory" where
  "array_module =
     state_of (getAccessor example_framework 7 Int32 ''/Dummy/out'' 3
       (initial ''history'' 20 ''history'' False ''History''))"

section \<open>Properties\<close>

subsection \<open>Auxiliary facts\<close>

lemma set_userTypes: "set userTypes = UNIV"
proof -
  have "ut \<in> set userTypes" for ut by (cases ut) (simp_all add: userTypes_def)
  then show ?thesis by blast
qed

lemma distinct_userTypes: "distinct userTypes"
  by (simp add: userTypes_def)

lemma inputIds_iff:
  "tid \<in> inputIds s \<longleftrightarrow> (\<exists>ut. \<exists>acc \<in> set (accessorListMap s ut). getId (fst acc) = tid)"
  by (auto simp: inputIds_def set_userTypes)

lemma for_each_skip:
  "(\<And>x. x \<in> set xs \<Longrightarrow> body x a = Returned a) \<Longrightarrow> for_each body xs a = Returned a"
  by (induction xs) auto

lemma for_each_append:
  "for_each body (xs @ ys) a =
     (case for_each body xs a of Returned b \<Rightarrow> for_each body ys b | Threw e b \<Rightarrow> Threw e b)"
  by (induction xs arbitrary: a) (simp_all split: outcome.splits)

lemma for_each_outcome:
  assumes "P (Returned a)" and "\<And>x b. P (Returned b) \<Longrightarrow> P (body x b)"
  shows "P (for_each body xs a)"
  using assms(1)
proof (induction xs arbitrary: a)
  case Nil
  then show ?case by simp
next
  case (Cons x xs)
  from assms(2) [OF Cons.prems] have step: "P (body x a)" .
  show ?case
  proof (cases "body x a")
    case (Returned b)
    with step Cons.IH show ?thesis by simp
  next
    case (Threw e b)
    with step show ?thesis by simp
  qed
qed

lemma state_of_map_outcome [simp]: "state_of (map_outcome g r) = g (state_of r)"
  by (cases r) simp_all

lemma is_undefined_map_outcome [simp]: "is_undefined (map_outcome g r) = is_undefined r"
  by (cases r rule: is_undefined.cases) simp_all

lemma example_registered_eq:
  "example_registered =
     example_module
       \<lparr>accessorListMap := (\<lambda>ut. [])(Int32 :=
          [(\<lparr>in_id = 7, in_name = ''/Dummy/out'', in_tags = {''historyTest_internal''},
             in_value = [0]\<rparr>,
            \<lparr>data = [\<lparr>out_name = ''/History/Dummy/out'', out_description = [],
                       out_tags = {''historyTest_internal''}, buffer = replicate 20 0\<rparr>],
             timeStamp = [], withTimeStamps = False\<rparr>)]),
        nameListMap := (\<lambda>ut. [])(Int32 := [''/Dummy/out'']),
        overallVariableList := {|''/Dummy/out''|}\<rparr>"
  by (simp add: example_registered_def example_module_def initial_def example_pv_def
      example_framework_def addVariableFromModel_def getAccessor_def newEntry_def newInput_def
      newOutput_def serverHistoryPVTag_def Let_def)

lemma example_two_eq:
  "example_two =
     example_module
       \<lparr>accessorListMap := (\<lambda>ut. [])(Int32 :=
          [(\<lparr>in_id = 7, in_name = ''/Dummy/out'', in_tags = {''historyTest_internal''},
             in_value = [0]\<rparr>,
            \<lparr>data = [\<lparr>out_name = ''/History/Dummy/out'', out_description = [],
                       out_tags = {''historyTest_internal''}, buffer = replicate 20 0\<rparr>],
             timeStamp = [], withTimeStamps = False\<rparr>),
           (\<lparr>in_id = 8, in_name = ''/Dummy/other'', in_tags = {''historyTest_internal''},
             in_value = [0]\<rparr>,
            \<lparr>data = [\<lparr>out_name = ''/History/Dummy/other'', out_description = [],
                       out_tags = {''historyTest_internal''}, buffer = replicate 20 0\<rparr>],
             timeStamp = [], withTimeStamps = False\<rparr>)]),
        nameListMap := (\<lambda>ut. [])(Int32 := [''/Dummy/out'', ''/Dummy/other'']),
        overallVariableList := {|''/Dummy/other'', ''/Dummy/out''|}\<rparr>"
  by (simp add: example_two_def example_registered_eq example_module_def initial_def
      example_framework_def getAccessor_def newEntry_def newInput_def
      newOutput_def serverHistoryPVTag_def Let_def)

subsection \<open>The tag of the generated outputs\<close>

text \<open>
  C2. The tag of the generated outputs is claimed to be the name of the module followed by
  \<^verbatim>\<open>_internal\<close>, with a further suffix whenever that tag is the inclusion tag, so that it
  never is the inclusion tag. The code compares the name of the module, not the computed
  tag, with the inclusion tag: a module called \<^verbatim>\<open>hist\<close> that looks for the tag
  \<^verbatim>\<open>hist_internal\<close> gives its outputs the inclusion tag itself, and a module called
  \<^verbatim>\<open>history\<close> that looks for \<^verbatim>\<open>history\<close> gets the further suffix although
  \<^verbatim>\<open>history_internal\<close> is not the inclusion tag.
\<close>

theorem generated_tag_is_inclusion_tag:
  "serverHistoryPVTag ''hist'' ''hist_internal'' = ''hist_internal''
   \<and> inputTag (initial ''hist'' 20 ''hist_internal'' False ''History'' :: int ServerHistory)
       = ''hist_internal''
   \<and> map out_tags (data (snd (last (accessorListMap
         (state_of (getAccessor example_framework 7 Int32 ''/Dummy/out'' 1
            (initial ''hist'' 20 ''hist_internal'' False ''History''))) Int32))))
       = [{''hist_internal''}]
   \<and> serverHistoryPVTag ''history'' ''history'' = ''history_internal_module''"
  by (simp add: serverHistoryPVTag_def initial_def getAccessor_def newEntry_def newOutput_def
      Let_def)

subsection \<open>Filtering and collisions at registration\<close>

text \<open>
  C8. A candidate that lacks the inclusion tag while tags are checked, or whose path does
  not begin with the sub-path followed by a separator when a sub-path other than the root
  is given, is skipped: \<^verbatim>\<open>addVariableFromModel\<close> returns normally and the module is as
  before.
\<close>

theorem addVariableFromModel_skips:
  "(checkTag \<and> inputTag s \<notin> getTags pv) \<or>
   (submodule \<noteq> ''/'' \<and> \<not> prefix (submodule @ ''/'') (getFullyQualifiedPath pv)) \<Longrightarrow>
   addVariableFromModel fw tid pv submodule checkTag s = Returned s"
  by (auto simp: addVariableFromModel_def Let_def)

theorem addVariableFromModel_skips_witness:
  "inputTag example_module \<notin> getTags untagged_pv
   \<and> addVariableFromModel example_framework 7 untagged_pv ''/'' True example_module
       = Returned example_module
   \<and> ''/Device'' \<noteq> ''/'' \<and> \<not> prefix (''/Device'' @ ''/'') (getFullyQualifiedPath example_pv)
   \<and> addVariableFromModel example_framework 7 example_pv ''/Device'' False example_module
       = Returned example_module"
proof -
  have tag: "inputTag example_module \<notin> getTags untagged_pv"
    by (simp add: example_module_def initial_def untagged_pv_def)
  have path: "''/Device'' \<noteq> ''/'' \<and>
              \<not> prefix (''/Device'' @ ''/'') (getFullyQualifiedPath example_pv)"
    by (simp add: example_pv_def)
  show ?thesis
    using tag path
      addVariableFromModel_skips [of True example_module untagged_pv "''/''" example_framework 7]
      addVariableFromModel_skips [of False example_module example_pv "''/Device''" example_framework 7]
    by simp
qed

text \<open>
  C3. Registering a name that is already in the overall variable list fails with a
  \<^verbatim>\<open>logic_error\<close> whose message holds the name, whatever the kind, and leaves the module
  as it was. This is so for \<^verbatim>\<open>getAccessor\<close>, the registration itself, without condition.
  \<^verbatim>\<open>addVariableFromModel\<close>, which filters its candidates before it registers them, leaves
  the module as it was in every case, and fails in the same way for every candidate that
  its tag and sub-path filters let through to the registration.
\<close>

theorem registration_collision:
  assumes "name |\<in>| overallVariableList s"
  shows "getAccessor fw tid ut name n s =
           Threw (logic_error (''Cannot add '' @ quote @ name @ quote @
                    '' to History since a variable with that name is already registered.'')) s
         \<and> (getFullyQualifiedPath pv = name \<longrightarrow>
              state_of (addVariableFromModel fw tid pv submodule checkTag s) = s
              \<and> addVariableFromModel fw tid pv submodule checkTag s =
                  (if (checkTag \<and> inputTag s \<notin> getTags pv)
                      \<or> (submodule \<noteq> ''/'' \<and> \<not> prefix (submodule @ ''/'') name)
                   then Returned s
                   else Threw (logic_error (''ServerHistory: Variable name '' @ quote @ name @
                                  quote @ '' already taken.'')) s))"
  using assms by (auto simp: getAccessor_def addVariableFromModel_def Let_def)

theorem registration_collision_witness:
  "''/Dummy/out'' |\<in>| overallVariableList example_registered
   \<and> getAccessor example_framework 8 Double ''/Dummy/out'' 3 example_registered =
       Threw (logic_error
         ''Cannot add '/Dummy/out' to History since a variable with that name is already registered.'')
         example_registered
   \<and> getFullyQualifiedPath example_pv = ''/Dummy/out''
   \<and> addVariableFromModel example_framework 8 example_pv ''/'' True example_registered =
       Threw (logic_error ''ServerHistory: Variable name '/Dummy/out' already taken.'')
         example_registered"
proof -
  have present: "''/Dummy/out'' |\<in>| overallVariableList example_registered"
    by (simp add: example_registered_eq)
  have path: "getFullyQualifiedPath example_pv = ''/Dummy/out''"
    by (simp add: example_pv_def)
  have through: "\<not> ((True \<and> inputTag example_registered \<notin> getTags example_pv)
      \<or> (''/'' \<noteq> ''/'' \<and> \<not> prefix (''/'' @ ''/'') ''/Dummy/out''))"
    by (simp add: example_registered_eq example_pv_def example_module_def initial_def)
  show ?thesis
    using present path through
      registration_collision [OF present, of example_framework 8 Double 3 example_pv "''/''" True]
    by (simp add: quote_def)
qed

subsection \<open>Construction and start\<close>

text \<open>
  C9. When the search finds no directory the constructor throws a \<^verbatim>\<open>logic_error\<close>. When
  it finds one in which no process variable carries the inclusion tag, the constructor
  returns, with no variable registered.
\<close>

theorem construct_directory:
  "construct (fw :: 'v framework) None name len tag stamps pre =
     Threw (logic_error notFoundMessage) (initial name len tag stamps pre)
   \<and> ((\<forall>p \<in> set pvs. tag \<notin> getTags (fst p)) \<longrightarrow>
        construct fw (Some pvs) name len tag stamps pre = Returned (initial name len tag stamps pre)
        \<and> getNumberOfVariables (initial name len tag stamps pre :: 'v ServerHistory) = 0)"
proof -
  have "filter (\<lambda>(pv, tid). tag \<in> getTags pv) pvs = []" if "\<forall>p \<in> set pvs. tag \<notin> getTags (fst p)"
    using that by (induction pvs) auto
  then show ?thesis
    by (auto simp: construct_def Let_def getNumberOfVariables_def initial_def)
qed

theorem construct_directory_witness:
  "''history'' \<notin> getTags untagged_pv
   \<and> construct example_framework (Some [(untagged_pv, 7)]) ''historyTest'' 20 ''history'' False
       ''History'' = Returned example_module
   \<and> getNumberOfVariables example_module = 0"
proof -
  have none: "\<forall>p \<in> set [(untagged_pv, 7::nat)]. ''history'' \<notin> getTags (fst p)"
    by (simp add: untagged_pv_def)
  show ?thesis
    using none
      construct_directory [of example_framework "''historyTest''" 20 "''history''" False
        "''History''" "[(untagged_pv, 7)]"]
    by (simp add: example_module_def)
qed

text \<open>
  C6. \<^verbatim>\<open>prepare\<close> throws exactly when \<^verbatim>\<open>getNumberOfVariables()\<close> is 0, that is when the
  overall variable list is empty, and then changes nothing. Otherwise it returns, having
  published every output of the module once, each with its buffer as it stands and marked
  faulty, and the data fault counter is what it was before.
\<close>

theorem prepare_publishes_once:
  "(has_thrown (prepare s) \<longleftrightarrow> getNumberOfVariables s = 0)
   \<and> (getNumberOfVariables s = 0 \<longleftrightarrow> overallVariableList s = {||})
   \<and> (getNumberOfVariables s = 0 \<longrightarrow> prepare s = Threw (logic_error noVariablesMessage) s)
   \<and> (getNumberOfVariables s \<noteq> 0 \<longrightarrow>
        prepare s = Returned (s\<lparr>written := written s @ allOutputs True s\<rparr>))"
  by (auto simp: prepare_def getNumberOfVariables_def writeAll_def allOutputs_def
      incrementDataFaultCounter_def decrementDataFaultCounter_def)

theorem prepare_publishes_once_witness:
  "getNumberOfVariables example_module = 0
   \<and> prepare example_module = Threw (logic_error noVariablesMessage) example_module
   \<and> getNumberOfVariables example_registered \<noteq> 0
   \<and> written (state_of (prepare example_registered)) =
       [\<lparr>pub_name = ''/History/Dummy/out'', pub_payload = Data (replicate 20 0),
         pub_faulty = True\<rparr>]
   \<and> dataFaultCounter (state_of (prepare example_registered)) = 0"
proof -
  have empty: "getNumberOfVariables example_module = 0"
    by (simp add: getNumberOfVariables_def example_module_def initial_def)
  have one: "getNumberOfVariables example_registered \<noteq> 0"
    by (simp add: getNumberOfVariables_def example_registered_eq)
  have outs: "allOutputs True example_registered =
      [\<lparr>pub_name = ''/History/Dummy/out'', pub_payload = Data (replicate 20 0),
        pub_faulty = True\<rparr>]"
    by (simp add: allOutputs_def userTypes_def example_registered_eq outputs_of_def publish_def)
  show ?thesis
    using empty one outs prepare_publishes_once [of example_module]
      prepare_publishes_once [of example_registered]
    by (simp add: example_module_def initial_def example_registered_eq)
qed

subsection \<open>Notifications of an unknown identity\<close>

lemma Update_list_other:
  "\<forall>acc \<in> set l. getId (fst acc) \<noteq> tid \<Longrightarrow> Update_list now f tid l w = Returned (l, w)"
  by (induction l arbitrary: w) auto

lemma Update_other:
  "\<forall>acc \<in> set (accessorListMap s ut). getId (fst acc) \<noteq> tid \<Longrightarrow> Update now tid ut s = Returned s"
  by (simp add: Update_def Update_list_other)

lemma readAny_other:
  assumes "note_id n \<notin> inputIds s"
  shows "readAny n s = s"
proof -
  have "map (\<lambda>(inp, ent). if getId inp = note_id n then (inp\<lparr>in_value := note_value n\<rparr>, ent)
                            else (inp, ent)) (accessorListMap s ut) = accessorListMap s ut" for ut
  proof (rule map_idI)
    fix acc assume "acc \<in> set (accessorListMap s ut)"
    with assms have "getId (fst acc) \<noteq> note_id n"
      unfolding inputIds_iff by blast
    then show "(case acc of (inp, ent) \<Rightarrow>
                 if getId inp = note_id n then (inp\<lparr>in_value := note_value n\<rparr>, ent)
                 else (inp, ent)) = acc"
      by (cases acc) simp
  qed
  then show ?thesis by (simp add: readAny_def)
qed

text \<open>
  C10. A notification whose identity is that of no input handle of the registry changes
  nothing: the turn of the loop returns normally with the module as it was, no buffer
  rotated and nothing published, and the loop goes on with the notifications that follow.
\<close>

theorem unknown_id_is_noop:
  assumes "note_id n \<notin> inputIds s"
  shows "mainLoop_body n s = Returned s \<and> mainLoop (n # ns) s = mainLoop ns s"
proof -
  have "Update (note_time n) (note_id n) ut s = Returned s" for ut
    using assms unfolding inputIds_iff by (intro Update_other) blast
  then have "for_each (Update (note_time n) (note_id n)) userTypes s = Returned s"
    by (intro for_each_skip) simp
  then have "mainLoop_body n s = Returned s"
    by (simp add: mainLoop_body_def readAny_other [OF assms])
  then show ?thesis by (simp add: mainLoop_def)
qed

theorem unknown_id_is_noop_witness:
  "99 \<notin> inputIds example_registered
   \<and> mainLoop_body \<lparr>note_id = 99, note_value = [42], note_time = (\<lambda>i. 0)\<rparr> example_registered
       = Returned example_registered
   \<and> mainLoop [\<lparr>note_id = 99, note_value = [42], note_time = (\<lambda>i. 0)\<rparr>] example_registered
       = Returned example_registered"
proof -
  have unknown:
    "note_id \<lparr>note_id = 99, note_value = [42::int], note_time = (\<lambda>i. 0)\<rparr>
       \<notin> inputIds example_registered"
    by (simp add: inputIds_def userTypes_def example_registered_eq getId_def)
  show ?thesis
    using unknown unknown_id_is_noop [OF unknown, of "[]"]
    by (simp add: mainLoop_def)
qed

subsection \<open>What never changes: the names, the number and the length of the buffers\<close>

lemma length_rotate_write [simp]: "length (rotate_write b v) = length b"
  by (simp add: rotate_write_def)

lemma map_outputLayout_update:
  "i < length ds \<Longrightarrow> outputLayout d = outputLayout (ds ! i) \<Longrightarrow>
   map outputLayout (ds[i := d]) = map outputLayout ds"
  by (simp add: map_update list_update_same_conv)

lemma update_element_layout:
  "entryLayout (fst (state_of (update_element now f inp i (ent, w)))) = entryLayout ent"
  by (simp add: update_element.simps Let_def entryLayout_def map_outputLayout_update
      outputLayout_def)

lemma update_element_defined:
  "noEmptyBuffer (entryLayout ent) \<Longrightarrow> \<not> is_undefined (update_element now f inp i (ent, w))"
  by (auto simp: update_element.simps Let_def entryLayout_def noEmptyBuffer_def list_all_iff
      outputLayout_def)

lemma elements_loop_layout:
  "entryLayout (fst (state_of (for_each (update_element now f inp) js (ent, w)))) = entryLayout ent
   \<and> (noEmptyBuffer (entryLayout ent) \<longrightarrow>
        \<not> is_undefined (for_each (update_element now f inp) js (ent, w)))"
proof (rule for_each_outcome
    [where P = "\<lambda>r. entryLayout (fst (state_of r)) = entryLayout ent
                  \<and> (noEmptyBuffer (entryLayout ent) \<longrightarrow> \<not> is_undefined r)"])
  show "entryLayout (fst (state_of (Returned (ent, w)))) = entryLayout ent
        \<and> (noEmptyBuffer (entryLayout ent) \<longrightarrow> \<not> is_undefined (Returned (ent, w)))"
    by simp
next
  fix j and b :: "'a HistoryEntry \<times> 'a publication list"
  assume "entryLayout (fst (state_of (Returned b))) = entryLayout ent
          \<and> (noEmptyBuffer (entryLayout ent) \<longrightarrow> \<not> is_undefined (Returned b))"
  then have same: "entryLayout (fst b) = entryLayout ent" by simp
  obtain e v where b: "b = (e, v)" by (cases b)
  show "entryLayout (fst (state_of (update_element now f inp j b))) = entryLayout ent
        \<and> (noEmptyBuffer (entryLayout ent) \<longrightarrow> \<not> is_undefined (update_element now f inp j b))"
    using same update_element_layout [of now f inp j e v] update_element_defined [of e now f inp j v]
    by (simp add: b)
qed

lemma Update_list_layout:
  "map (\<lambda>acc. entryLayout (snd acc)) (fst (state_of (Update_list now f tid l w)))
     = map (\<lambda>acc. entryLayout (snd acc)) l
   \<and> (list_all noEmptyBuffer (map (\<lambda>acc. entryLayout (snd acc)) l) \<longrightarrow>
        \<not> is_undefined (Update_list now f tid l w))"
proof (induction l arbitrary: w)
  case Nil
  show ?case by simp
next
  case (Cons acc rest)
  obtain inp ent where acc: "acc = (inp, ent)" by (cases acc)
  show ?case
  proof (cases "getId inp = tid")
    case False
    with Cons.IH [of w] show ?thesis
      by (simp add: acc split_beta)
  next
    case True
    let ?r = "for_each (update_element now f inp) [0..<getNElements inp] (ent, w)"
    note loop = elements_loop_layout [of now f inp "[0..<getNElements inp]" ent w]
    show ?thesis
    proof (cases ?r)
      case (Returned b)
      obtain e v where b: "b = (e, v)" by (cases b)
      from loop Returned b have "entryLayout e = entryLayout ent" by simp
      with Cons.IH [of v] True Returned b show ?thesis
        by (simp add: acc split_beta)
    next
      case (Threw x b)
      obtain e v where b: "b = (e, v)" by (cases b)
      from loop Threw b have "entryLayout e = entryLayout ent"
        and "noEmptyBuffer (entryLayout ent) \<longrightarrow> x \<noteq> undefined_behaviour"
        by (auto elim: is_undefined.elims)
      with True Threw b show ?thesis
        by (cases x) (simp_all add: acc)
    qed
  qed
qed

lemma Update_layout:
  "layoutOf (state_of (Update now tid ut s)) = layoutOf s
   \<and> historyLength (state_of (Update now tid ut s)) = historyLength s
   \<and> (layoutDefined s \<longrightarrow> \<not> is_undefined (Update now tid ut s))"
proof -
  note l = Update_list_layout [of now "0 < dataFaultCounter s" tid "accessorListMap s ut" "written s"]
  have "ut \<in> set userTypes" by (simp add: set_userTypes)
  then have "layoutDefined s \<Longrightarrow> list_all noEmptyBuffer (layoutOf s ut)"
    by (simp add: layoutDefined_def list_all_iff)
  with l show ?thesis
    by (auto simp: Update_def layoutOf_def fun_eq_iff split_beta)
qed

lemma readAny_layout:
  "layoutOf (readAny n s) = layoutOf s \<and> historyLength (readAny n s) = historyLength s"
  by (auto simp: readAny_def layoutOf_def fun_eq_iff split_beta)

lemma layoutDefined_cong: "layoutOf a = layoutOf b \<Longrightarrow> layoutDefined a = layoutDefined b"
  by (simp add: layoutDefined_def)

lemma mainLoop_body_layout:
  "layoutOf (state_of (mainLoop_body n s)) = layoutOf s
   \<and> historyLength (state_of (mainLoop_body n s)) = historyLength s
   \<and> (layoutDefined s \<longrightarrow> \<not> is_undefined (mainLoop_body n s))"
  unfolding mainLoop_body_def
proof (rule for_each_outcome
    [where P = "\<lambda>r. layoutOf (state_of r) = layoutOf s
                  \<and> historyLength (state_of r) = historyLength s
                  \<and> (layoutDefined s \<longrightarrow> \<not> is_undefined r)"])
  show "layoutOf (state_of (Returned (readAny n s))) = layoutOf s
        \<and> historyLength (state_of (Returned (readAny n s))) = historyLength s
        \<and> (layoutDefined s \<longrightarrow> \<not> is_undefined (Returned (readAny n s)))"
    by (simp add: readAny_layout)
next
  fix ut and b :: "'a ServerHistory"
  assume "layoutOf (state_of (Returned b)) = layoutOf s
          \<and> historyLength (state_of (Returned b)) = historyLength s
          \<and> (layoutDefined s \<longrightarrow> \<not> is_undefined (Returned b))"
  then have same: "layoutOf b = layoutOf s" "historyLength b = historyLength s" by simp_all
  show "layoutOf (state_of (Update (note_time n) (note_id n) ut b)) = layoutOf s
        \<and> historyLength (state_of (Update (note_time n) (note_id n) ut b)) = historyLength s
        \<and> (layoutDefined s \<longrightarrow> \<not> is_undefined (Update (note_time n) (note_id n) ut b))"
    using same Update_layout [of "note_time n" "note_id n" ut b] layoutDefined_cong [OF same(1)]
    by simp
qed

lemma mainLoop_layout:
  "layoutOf (state_of (mainLoop ns s)) = layoutOf s
   \<and> historyLength (state_of (mainLoop ns s)) = historyLength s
   \<and> (layoutDefined s \<longrightarrow> \<not> is_undefined (mainLoop ns s))"
  unfolding mainLoop_def
proof (rule for_each_outcome
    [where P = "\<lambda>r. layoutOf (state_of r) = layoutOf s
                  \<and> historyLength (state_of r) = historyLength s
                  \<and> (layoutDefined s \<longrightarrow> \<not> is_undefined r)"])
  show "layoutOf (state_of (Returned s)) = layoutOf s
        \<and> historyLength (state_of (Returned s)) = historyLength s
        \<and> (layoutDefined s \<longrightarrow> \<not> is_undefined (Returned s))"
    by simp
next
  fix n and b :: "'a ServerHistory"
  assume "layoutOf (state_of (Returned b)) = layoutOf s
          \<and> historyLength (state_of (Returned b)) = historyLength s
          \<and> (layoutDefined s \<longrightarrow> \<not> is_undefined (Returned b))"
  then have same: "layoutOf b = layoutOf s" "historyLength b = historyLength s" by simp_all
  show "layoutOf (state_of (mainLoop_body n b)) = layoutOf s
        \<and> historyLength (state_of (mainLoop_body n b)) = historyLength s
        \<and> (layoutDefined s \<longrightarrow> \<not> is_undefined (mainLoop_body n b))"
    using same mainLoop_body_layout [of n b] layoutDefined_cong [OF same(1)]
    by simp
qed

lemma prepare_layout: "layoutOf (state_of (prepare s)) = layoutOf s"
  by (simp add: prepare_def layoutOf_def decrementDataFaultCounter_def writeAll_def
      incrementDataFaultCounter_def fun_eq_iff)

lemma allBuffersHaveLength_layout:
  "allBuffersHaveLength len s \<longleftrightarrow>
     (\<forall>ut. \<forall>lay \<in> set (layoutOf s ut).
        (\<forall>p \<in> set (fst lay). snd p = len) \<and> (\<forall>p \<in> set (fst (snd lay)). snd p = len))"
  by (auto simp: allBuffersHaveLength_def layoutOf_def entryLayout_def outputLayout_def
      set_userTypes)

lemma allBuffersHaveLength_cong:
  "layoutOf a = layoutOf b \<Longrightarrow> allBuffersHaveLength len a = allBuffersHaveLength len b"
  by (simp add: allBuffersHaveLength_layout)

lemma allBuffersHaveLength_defined:
  "allBuffersHaveLength len s \<Longrightarrow> 0 < len \<Longrightarrow> layoutDefined s"
  by (auto simp: allBuffersHaveLength_layout layoutDefined_def noEmptyBuffer_def list_all_iff)

lemma outputCounts_layout:
  "outputCounts s ut = map (\<lambda>lay. (length (fst lay), length (fst (snd lay)))) (layoutOf s ut)"
  by (simp add: outputCounts_def layoutOf_def entryLayout_def)

subsection \<open>The outputs a registration creates\<close>

lemma foldl_emplace_element:
  "foldl (emplace_element hn len stamps tag z) e [0..<n] =
     e\<lparr>data := data e @ map (\<lambda>i. newOutput (hn @ ''_'' @ to_string i) len [] tag z) [0..<n],
       timeStamp := timeStamp e @
         (if stamps
          then map (\<lambda>i. newOutput (hn @ ''_'' @ to_string i @ ''_timeStamps'') len
                           timeStampDescription tag 0) [0..<n]
          else [])\<rparr>"
  by (induction n) (simp_all add: emplace_element_def Let_def)

lemma data_newEntry:
  "data (newEntry hn len stamps tag z n) =
     (if n = 1 then [newOutput hn len [] tag z]
      else map (\<lambda>i. newOutput (hn @ ''_'' @ to_string i) len [] tag z) [0..<n])"
  by (simp add: newEntry_def Let_def foldl_emplace_element)

lemma timeStamp_newEntry:
  "timeStamp (newEntry hn len stamps tag z n) =
     (if \<not> stamps then []
      else if n = 1 then [newOutput (hn @ ''_timeStamps'') len timeStampDescription tag 0]
      else map (\<lambda>i. newOutput (hn @ ''_'' @ to_string i @ ''_timeStamps'') len
                       timeStampDescription tag 0) [0..<n])"
  by (simp add: newEntry_def Let_def foldl_emplace_element)

lemma withTimeStamps_newEntry: "withTimeStamps (newEntry hn len stamps tag z n) = stamps"
  by (simp add: newEntry_def Let_def foldl_emplace_element)

lemma newEntry_buffers:
  "(\<forall>d \<in> set (data (newEntry hn len stamps tag z n)). buffer d = replicate len z)
   \<and> (\<forall>t \<in> set (timeStamp (newEntry hn len stamps tag z n)). buffer t = replicate len 0)"
  by (auto simp: data_newEntry timeStamp_newEntry newOutput_def)

lemma getAccessor_fresh:
  assumes "name |\<notin>| overallVariableList s"
  shows "getAccessor fw tid ut name n s =
     Returned (s\<lparr>overallVariableList := finsert name (overallVariableList s),
                accessorListMap := (accessorListMap s)(ut := accessorListMap s ut @
                  [(newInput tid name n (serverHistoryPVTag (moduleName s) (inputTag s))
                      (valueInit fw ut),
                    newEntry (pathJoin fw (prefix_str s) name) (historyLength s)
                      (enbaleTimeStamps s) (serverHistoryPVTag (moduleName s) (inputTag s))
                      (valueInit fw ut) n)]),
                nameListMap := (nameListMap s)(ut := nameListMap s ut @ [name])\<rparr>)"
  using assms by (simp add: getAccessor_def Let_def)

lemma getAccessor_keeps_lengths:
  assumes "allBuffersHaveLength (historyLength s) s"
  shows "allBuffersHaveLength (historyLength s) (state_of (getAccessor fw tid ut name n s))"
proof (cases "name |\<in>| overallVariableList s")
  case True
  with assms show ?thesis by (simp add: getAccessor_def)
next
  case False
  note new = newEntry_buffers [of "pathJoin fw (prefix_str s) name" "historyLength s"
      "enbaleTimeStamps s" "serverHistoryPVTag (moduleName s) (inputTag s)" "valueInit fw ut" n]
  show ?thesis
    using assms new unfolding getAccessor_fresh [OF False] allBuffersHaveLength_def
    by (auto split: if_splits)
qed

lemma addVariableFromModel_keeps_lengths:
  assumes "allBuffersHaveLength (historyLength s) s"
  shows "allBuffersHaveLength (historyLength s)
           (state_of (addVariableFromModel fw tid pv submodule checkTag s))"
  using assms getAccessor_keeps_lengths [OF assms]
  by (simp add: addVariableFromModel_def Let_def)

lemma historyLength_getAccessor:
  "historyLength (state_of (getAccessor fw tid ut name n s)) = historyLength s"
  by (simp add: getAccessor_def Let_def)

lemma getAccessor_layout_prefix:
  "prefix (layoutOf s ut') (layoutOf (state_of (getAccessor fw tid ut name n s)) ut')"
  by (simp add: getAccessor_def Let_def layoutOf_def)

text \<open>
  C4. Every data and time stamp buffer of the registry has the configured history length:
  none exists in the initial module, a registration (which creates the buffers of the new
  variable) keeps it so, and so does every run of the loop, at whatever point it stops.
  With a positive history length the loop never steps outside a buffer.
\<close>

theorem buffer_length_invariant:
  "allBuffersHaveLength len (initial name len tag stamps pre)
   \<and> (allBuffersHaveLength (historyLength s) s \<longrightarrow>
        allBuffersHaveLength (historyLength s) (state_of (getAccessor fw tid ut var k s))
        \<and> historyLength (state_of (getAccessor fw tid ut var k s)) = historyLength s
        \<and> allBuffersHaveLength (historyLength s)
            (state_of (addVariableFromModel fw tid pv submodule checkTag s))
        \<and> allBuffersHaveLength (historyLength s) (state_of (mainLoop ns s))
        \<and> historyLength (state_of (mainLoop ns s)) = historyLength s
        \<and> (0 < historyLength s \<longrightarrow> \<not> is_undefined (mainLoop ns s)))"
proof -
  have init: "allBuffersHaveLength len (initial name len tag stamps pre)"
    by (simp add: allBuffersHaveLength_def initial_def)
  have run: "allBuffersHaveLength (historyLength s) (state_of (mainLoop ns s))"
    if "allBuffersHaveLength (historyLength s) s"
    using that mainLoop_layout [of ns s] allBuffersHaveLength_cong by blast
  have defined: "\<not> is_undefined (mainLoop ns s)"
    if "allBuffersHaveLength (historyLength s) s" "0 < historyLength s"
    using mainLoop_layout [of ns s] allBuffersHaveLength_defined [OF that] by simp
  show ?thesis
    using init run defined getAccessor_keeps_lengths addVariableFromModel_keeps_lengths
      historyLength_getAccessor mainLoop_layout [of ns s]
    by blast
qed

theorem buffer_length_invariant_witness:
  "allBuffersHaveLength (historyLength example_registered) example_registered
   \<and> historyLength example_registered = 20
   \<and> allBuffersHaveLength 20
       (state_of (mainLoop [\<lparr>note_id = 7, note_value = [42], note_time = (\<lambda>i. 0)\<rparr>]
          example_registered))
   \<and> \<not> is_undefined (mainLoop [\<lparr>note_id = 7, note_value = [42], note_time = (\<lambda>i. 0)\<rparr>]
          example_registered)"
proof -
  have len: "historyLength example_registered = 20"
    by (simp add: example_registered_eq example_module_def initial_def)
  have inv: "allBuffersHaveLength (historyLength example_registered) example_registered"
    unfolding len by (simp add: allBuffersHaveLength_def userTypes_def example_registered_eq)
  have pos: "0 < historyLength example_registered"
    by (simp add: len)
  note inst = buffer_length_invariant [of 20 "''historyTest''" "''history''" False "''History''"
      example_registered example_framework 8 Int32 "''/Dummy/in''" 1 untagged_pv "''/''" True
      "[\<lparr>note_id = 7, note_value = [42], note_time = (\<lambda>i. 0)\<rparr>]"]
  from inst inv pos
  have "allBuffersHaveLength (historyLength example_registered)
          (state_of (mainLoop [\<lparr>note_id = 7, note_value = [42], note_time = (\<lambda>i. 0)\<rparr>]
             example_registered))
        \<and> \<not> is_undefined (mainLoop [\<lparr>note_id = 7, note_value = [42], note_time = (\<lambda>i. 0)\<rparr>]
             example_registered)"
    by blast
  with inv len show ?thesis by simp
qed

text \<open>
  C5. Registering a new variable of \<open>n\<close> elements returns normally and appends one
  accessor with \<open>n\<close> data outputs: a single one named by the path join of the prefix and
  the name if \<open>n = 1\<close>, otherwise one per index \<open>i\<close> below \<open>n\<close> with \<^verbatim>\<open>_i\<close> appended. It has
  \<open>n\<close> time stamp outputs if time stamps are enabled and none otherwise, named like the
  data outputs with \<^verbatim>\<open>_timeStamps\<close> appended. Every buffer has the history length and is
  filled with value-initialised elements. The numbers of outputs of the accessors stay the
  same through the loop and \<^verbatim>\<open>prepare\<close>, and a later registration only appends.
\<close>

theorem registration_creates_outputs:
  assumes "name |\<notin>| overallVariableList s"
  shows "(let r = getAccessor fw tid ut name n s;
              s' = state_of r;
              new = last (accessorListMap s' ut);
              historyName = pathJoin fw (prefix_str s) name
          in \<not> has_thrown r
             \<and> accessorListMap s' ut = accessorListMap s ut @ [new]
             \<and> (\<forall>ut'. ut' \<noteq> ut \<longrightarrow> accessorListMap s' ut' = accessorListMap s ut')
             \<and> in_name (fst new) = name \<and> getNElements (fst new) = n
             \<and> length (data (snd new)) = n
             \<and> map out_name (data (snd new)) =
                 (if n = 1 then [historyName]
                  else map (\<lambda>i. historyName @ ''_'' @ to_string i) [0..<n])
             \<and> length (timeStamp (snd new)) = (if enbaleTimeStamps s then n else 0)
             \<and> map out_name (timeStamp (snd new)) =
                 (if enbaleTimeStamps s
                  then map (\<lambda>nm. nm @ ''_timeStamps'') (map out_name (data (snd new)))
                  else [])
             \<and> (\<forall>d \<in> set (data (snd new)). length (buffer d) = historyLength s)
             \<and> (\<forall>t \<in> set (timeStamp (snd new)). length (buffer t) = historyLength s)
             \<and> (\<forall>d \<in> set (data (snd new)).
                   buffer d = replicate (historyLength s) (valueInit fw ut))
             \<and> (\<forall>t \<in> set (timeStamp (snd new)). buffer t = replicate (historyLength s) 0)
             \<and> outputCounts (state_of (mainLoop ns s')) = outputCounts s'
             \<and> outputCounts (state_of (prepare s')) = outputCounts s'
             \<and> prefix (outputCounts s' ut')
                 (outputCounts (state_of (getAccessor fw tid' ut'' name' n' s')) ut'))"
proof -
  let ?tag = "serverHistoryPVTag (moduleName s) (inputTag s)"
  let ?hn = "pathJoin fw (prefix_str s) name"
  let ?ent = "newEntry ?hn (historyLength s) (enbaleTimeStamps s) ?tag (valueInit fw ut) n"
  let ?inp = "newInput tid name n ?tag (valueInit fw ut)"
  let ?s' = "state_of (getAccessor fw tid ut name n s)"
  note fresh = getAccessor_fresh [OF assms, of fw tid ut n]
  have returned: "\<not> has_thrown (getAccessor fw tid ut name n s)"
    by (simp add: fresh)
  have appended: "accessorListMap ?s' ut = accessorListMap s ut @ [(?inp, ?ent)]"
    by (simp add: fresh)
  then have new: "last (accessorListMap ?s' ut) = (?inp, ?ent)"
    by simp
  have others: "\<forall>ut'. ut' \<noteq> ut \<longrightarrow> accessorListMap ?s' ut' = accessorListMap s ut'"
    by (simp add: fresh)
  have inp: "in_name ?inp = name \<and> getNElements ?inp = n"
    by (simp add: newInput_def getNElements_def)
  have names: "map out_name (data ?ent) =
      (if n = 1 then [?hn] else map (\<lambda>i. ?hn @ ''_'' @ to_string i) [0..<n])"
    by (simp add: data_newEntry newOutput_def comp_def)
  have count: "length (data ?ent) = n"
    by (simp add: data_newEntry)
  have stamps: "length (timeStamp ?ent) = (if enbaleTimeStamps s then n else 0)"
    by (simp add: timeStamp_newEntry)
  have stampNames: "map out_name (timeStamp ?ent) =
      (if enbaleTimeStamps s then map (\<lambda>nm. nm @ ''_timeStamps'') (map out_name (data ?ent))
       else [])"
    by (simp add: data_newEntry timeStamp_newEntry newOutput_def comp_def)
  have lens: "(\<forall>d \<in> set (data ?ent). length (buffer d) = historyLength s)
      \<and> (\<forall>t \<in> set (timeStamp ?ent). length (buffer t) = historyLength s)"
    using newEntry_buffers [of ?hn "historyLength s" "enbaleTimeStamps s" ?tag "valueInit fw ut" n]
    by simp
  have fill: "(\<forall>d \<in> set (data ?ent). buffer d = replicate (historyLength s) (valueInit fw ut))
      \<and> (\<forall>t \<in> set (timeStamp ?ent). buffer t = replicate (historyLength s) 0)"
    by (rule newEntry_buffers)
  have run: "outputCounts (state_of (mainLoop ns ?s')) = outputCounts ?s'"
    using mainLoop_layout [of ns ?s'] by (simp add: outputCounts_layout fun_eq_iff)
  have prep: "outputCounts (state_of (prepare ?s')) = outputCounts ?s'"
    using prepare_layout [of ?s'] by (simp add: outputCounts_layout fun_eq_iff)
  have later: "prefix (outputCounts ?s' ut')
      (outputCounts (state_of (getAccessor fw tid' ut'' name' n' ?s')) ut')"
    unfolding outputCounts_layout by (intro map_mono_prefix getAccessor_layout_prefix)
  show ?thesis
    unfolding Let_def new fst_conv snd_conv
    using returned appended others inp names count stamps stampNames lens fill run prep later
    by (intro conjI) blast+
qed

theorem registration_creates_outputs_witness:
  "''/Dummy/out'' |\<notin>| overallVariableList stamped_module
   \<and> \<not> has_thrown (getAccessor example_framework 7 Int32 ''/Dummy/out'' 3 stamped_module)
   \<and> map out_name (data (snd (last (accessorListMap
         (state_of (getAccessor example_framework 7 Int32 ''/Dummy/out'' 3 stamped_module)) Int32))))
       = [''/History/Dummy/out_0'', ''/History/Dummy/out_1'', ''/History/Dummy/out_2'']
   \<and> map out_name (timeStamp (snd (last (accessorListMap
         (state_of (getAccessor example_framework 7 Int32 ''/Dummy/out'' 3 stamped_module)) Int32))))
       = [''/History/Dummy/out_0_timeStamps'', ''/History/Dummy/out_1_timeStamps'',
          ''/History/Dummy/out_2_timeStamps'']"
proof -
  have fresh: "''/Dummy/out'' |\<notin>| overallVariableList stamped_module"
    by (simp add: stamped_module_def initial_def)
  note inst = registration_creates_outputs [OF fresh, of example_framework 7 Int32 3 "[]" Int32 8
      Int32 "''/Dummy/in''" 1, unfolded Let_def]
  have cfg: "pathJoin example_framework (prefix_str stamped_module) ''/Dummy/out''
               = ''/History/Dummy/out''"
    "enbaleTimeStamps stamped_module"
    by (simp_all add: example_framework_def stamped_module_def initial_def)
  have idx: "[0..<3] = [0, 1, 2]"
    by (simp add: upt_rec)
  have digits: "to_string 0 = ''0''" "to_string (Suc 0) = ''1''" "to_string 2 = ''2''"
    by (simp_all add: to_string.simps digit_def)
  from inst have
    "\<not> has_thrown (getAccessor example_framework 7 Int32 ''/Dummy/out'' 3 stamped_module)"
    and "map out_name (data (snd (last (accessorListMap
          (state_of (getAccessor example_framework 7 Int32 ''/Dummy/out'' 3 stamped_module)) Int32))))
        = (if (3::nat) = 1 then [pathJoin example_framework (prefix_str stamped_module) ''/Dummy/out'']
           else map (\<lambda>i. pathJoin example_framework (prefix_str stamped_module) ''/Dummy/out''
                          @ ''_'' @ to_string i) [0..<3])"
    and "map out_name (timeStamp (snd (last (accessorListMap
          (state_of (getAccessor example_framework 7 Int32 ''/Dummy/out'' 3 stamped_module)) Int32))))
        = (if enbaleTimeStamps stamped_module
           then map (\<lambda>nm. nm @ ''_timeStamps'') (map out_name (data (snd (last (accessorListMap
             (state_of (getAccessor example_framework 7 Int32 ''/Dummy/out'' 3 stamped_module))
             Int32)))))
           else [])"
    by blast+
  then show ?thesis
    using fresh by (simp add: cfg idx digits)
qed

subsection \<open>What a registration leaves for the run phase\<close>

text \<open>
  The properties of the run phase below are about accessors that are ready and about a
  registry without two equal identities. A registration makes such accessors, when the
  history length is positive, and keeps such a registry, when the identity of the new
  input is a new one.
\<close>

lemma getAccessor_entryReady:
  assumes "name |\<notin>| overallVariableList s" and "0 < historyLength s"
  shows "entryReady (last (accessorListMap (state_of (getAccessor fw tid ut name n s)) ut))"
  using assms(2)
  by (simp add: getAccessor_fresh [OF assms(1)] entryReady_def newInput_def getNElements_def
      data_newEntry timeStamp_newEntry withTimeStamps_newEntry entryLayout_def noEmptyBuffer_def
      outputLayout_def newOutput_def list_all_iff)

lemma getAccessor_uniqueIds:
  assumes "uniqueIds s" and "tid \<notin> inputIds s"
  shows "uniqueIds (state_of (getAccessor fw tid ut name n s))"
proof (cases "name |\<in>| overallVariableList s")
  case True
  with assms(1) show ?thesis by (simp add: getAccessor_def)
next
  case False
  let ?A = "(newInput tid name n (serverHistoryPVTag (moduleName s) (inputTag s)) (valueInit fw ut),
             newEntry (pathJoin fw (prefix_str s) name) (historyLength s) (enbaleTimeStamps s)
               (serverHistoryPVTag (moduleName s) (inputTag s)) (valueInit fw ut) n)"
  let ?s' = "state_of (getAccessor fw tid ut name n s)"
  have lists: "accessorListMap ?s' u = (if u = ut then accessorListMap s ut @ [?A]
                                        else accessorListMap s u)" for u
    by (simp add: getAccessor_fresh [OF False])
  have new: "getId (fst ?A) = tid"
    by (simp add: newInput_def getId_def)
  have old: "getId (fst (accessorListMap s u ! j)) \<noteq> tid" if "j < length (accessorListMap s u)" for u j
    using that assms(2) unfolding inputIds_iff by (metis nth_mem)
  have place: "getId (fst (accessorListMap ?s' u ! j)) =
      (if j < length (accessorListMap s u) then getId (fst (accessorListMap s u ! j)) else tid)"
    if "j < length (accessorListMap ?s' u)" for u j
    using that new by (auto simp: lists nth_append split: if_splits)
  show ?thesis
    unfolding uniqueIds_def set_userTypes
  proof (intro ballI allI impI)
    fix u u' i j
    assume i: "i < length (accessorListMap ?s' u)" and j: "j < length (accessorListMap ?s' u')"
      and same: "getId (fst (accessorListMap ?s' u ! i)) = getId (fst (accessorListMap ?s' u' ! j))"
    consider (oo) "i < length (accessorListMap s u)" "j < length (accessorListMap s u')"
      | (on) "i < length (accessorListMap s u)" "\<not> j < length (accessorListMap s u')"
      | (no) "\<not> i < length (accessorListMap s u)" "j < length (accessorListMap s u')"
      | (nn) "\<not> i < length (accessorListMap s u)" "\<not> j < length (accessorListMap s u')"
      by blast
    then show "u = u' \<and> i = j"
    proof cases
      case oo
      with same place [OF i] place [OF j] assms(1) show ?thesis
        unfolding uniqueIds_def set_userTypes by (metis UNIV_I)
    next
      case on
      with same place [OF i] place [OF j] old [of i u] show ?thesis by simp
    next
      case no
      with same place [OF i] place [OF j] old [of j u'] show ?thesis by simp
    next
      case nn
      with i j show ?thesis
        by (auto simp: lists split: if_splits)
    qed
  qed
qed

lemma initial_uniqueIds: "uniqueIds (initial name len tag stamps pre)"
  by (simp add: uniqueIds_def initial_def)

subsection \<open>What a turn of the loop does\<close>

lemma handled_0: "handled 0 now vals ent = ent"
proof -
  have "map (\<lambda>i. data ent ! i) [0..<length (data ent)] = data ent"
    and "map (\<lambda>i. timeStamp ent ! i) [0..<length (timeStamp ent)] = timeStamp ent"
    by (rule map_nth)+
  then show ?thesis
    unfolding handled_def by simp
qed

lemma handled_fields:
  "length (data (handled k now vals ent)) = length (data ent)"
  "length (timeStamp (handled k now vals ent)) = length (timeStamp ent)"
  "withTimeStamps (handled k now vals ent) = withTimeStamps ent"
  unfolding handled_def by simp_all

lemma handled_data_nth:
  "k < length (data ent) \<Longrightarrow> data (handled k now vals ent) ! k = data ent ! k"
  unfolding handled_def by simp

lemma handled_timeStamp_nth:
  "k < length (timeStamp ent) \<Longrightarrow> timeStamp (handled k now vals ent) ! k = timeStamp ent ! k"
  unfolding handled_def by simp

lemma handled_data_Suc:
  "(data (handled k now vals ent))[k := rotatedData vals ent k]
     = data (handled (Suc k) now vals ent)"
  unfolding handled_def by (rule nth_equalityI) (simp_all add: nth_list_update less_Suc_eq)

lemma handled_timeStamp_Suc:
  "withTimeStamps ent \<Longrightarrow>
   (timeStamp (handled k now vals ent))[k := rotatedStamp now ent k]
     = timeStamp (handled (Suc k) now vals ent)"
  unfolding handled_def by (rule nth_equalityI) (simp_all add: nth_list_update less_Suc_eq)

lemma handled_timeStamp_off:
  "\<not> withTimeStamps ent \<Longrightarrow>
   timeStamp (handled k now vals ent) = timeStamp (handled (Suc k) now vals ent)"
  unfolding handled_def by simp

lemma handled_Suc_stamped:
  "withTimeStamps ent \<Longrightarrow>
   (handled k now vals ent)
     \<lparr>data := (data (handled k now vals ent))[k := rotatedData vals ent k],
      timeStamp := (timeStamp (handled k now vals ent))[k := rotatedStamp now ent k]\<rparr>
   = handled (Suc k) now vals ent"
  unfolding handled_data_Suc handled_timeStamp_Suc unfolding handled_def by simp

lemma handled_Suc_plain:
  "\<not> withTimeStamps ent \<Longrightarrow>
   (handled k now vals ent)\<lparr>data := (data (handled k now vals ent))[k := rotatedData vals ent k]\<rparr>
   = handled (Suc k) now vals ent"
  unfolding handled_data_Suc unfolding handled_def by simp

lemma update_element_handled:
  assumes "k < length (data ent)"
    and "withTimeStamps ent \<longrightarrow> k < length (timeStamp ent)"
    and "noEmptyBuffer (entryLayout ent)"
  shows "update_element now f inp k (handled k now (in_value inp) ent, w) =
           Returned (handled (Suc k) now (in_value inp) ent,
                     w @ publish f Data (rotatedData (in_value inp) ent k) #
                       (if withTimeStamps ent then [publish f Stamps (rotatedStamp now ent k)]
                        else []))"
proof -
  let ?h = "handled k now (in_value inp) ent"
  have ne: "buffer (data ent ! k) \<noteq> []"
    using assms(1,3) by (auto simp: noEmptyBuffer_def entryLayout_def list_all_iff outputLayout_def)
  have net: "withTimeStamps ent \<Longrightarrow> buffer (timeStamp ent ! k) \<noteq> []"
    using assms(2,3) by (auto simp: noEmptyBuffer_def entryLayout_def list_all_iff outputLayout_def)
  have d: "(data ?h ! k)\<lparr>buffer := rotate_write (buffer (data ?h ! k)) (in_value inp ! k)\<rparr>
             = rotatedData (in_value inp) ent k"
    using assms(1) by (simp add: handled_data_nth rotatedData_def)
  have t: "withTimeStamps ent \<Longrightarrow>
      (timeStamp ?h ! k)\<lparr>buffer := rotate_write (buffer (timeStamp ?h ! k)) (now k)\<rparr>
        = rotatedStamp now ent k"
    using assms(2) by (simp add: handled_timeStamp_nth rotatedStamp_def)
  show ?thesis
  proof (cases "withTimeStamps ent")
    case True
    with assms ne net d t [OF True] handled_Suc_stamped [OF True, of k now "in_value inp"]
    show ?thesis
      by (simp add: update_element.simps Let_def handled_fields handled_data_nth
          handled_timeStamp_nth)
  next
    case False
    with assms ne d handled_Suc_plain [OF False, of k now "in_value inp"]
    show ?thesis
      by (simp add: update_element.simps Let_def handled_fields handled_data_nth)
  qed
qed

lemma elements_loop_handled:
  assumes "k \<le> length (data ent)"
    and "withTimeStamps ent \<longrightarrow> k \<le> length (timeStamp ent)"
    and "noEmptyBuffer (entryLayout ent)"
  shows "for_each (update_element now f inp) [0..<k] (ent, w) =
           Returned (handled k now (in_value inp) ent,
                     w @ handledPubs k f now (in_value inp) ent)"
  using assms(1,2)
proof (induction k)
  case 0
  show ?case by (simp add: handledPubs_def handled_0)
next
  case (Suc k)
  from Suc.prems have "k \<le> length (data ent)" "withTimeStamps ent \<longrightarrow> k \<le> length (timeStamp ent)"
    by auto
  with Suc.IH have "for_each (update_element now f inp) [0..<k] (ent, w) =
      Returned (handled k now (in_value inp) ent, w @ handledPubs k f now (in_value inp) ent)"
    by simp
  moreover have "update_element now f inp k
      (handled k now (in_value inp) ent, w @ handledPubs k f now (in_value inp) ent) =
      Returned (handled (Suc k) now (in_value inp) ent,
        (w @ handledPubs k f now (in_value inp) ent) @
          publish f Data (rotatedData (in_value inp) ent k) #
            (if withTimeStamps ent then [publish f Stamps (rotatedStamp now ent k)] else []))"
    using Suc.prems assms(3) by (intro update_element_handled) auto
  ultimately show ?case
    by (simp add: for_each_append handledPubs_def)
qed

lemma Update_list_ready:
  assumes "\<forall>acc \<in> set l. getId (fst acc) = tid \<longrightarrow> entryReady acc"
  shows "Update_list now f tid l w =
           Returned (map (turnAccessor now tid) l, w @ concat (map (turnPubs f now tid) l))"
  using assms
proof (induction l arbitrary: w)
  case Nil
  show ?case by simp
next
  case (Cons acc rest)
  obtain inp ent where acc: "acc = (inp, ent)" by (cases acc)
  from Cons.prems have rest: "\<forall>a \<in> set rest. getId (fst a) = tid \<longrightarrow> entryReady a"
    by simp
  show ?case
  proof (cases "getId inp = tid")
    case False
    then show ?thesis
      using Cons.IH [OF rest, of w] by (simp add: acc turnAccessor_def turnPubs_def)
  next
    case True
    with Cons.prems have "entryReady (inp, ent)" by (simp add: acc)
    then have "for_each (update_element now f inp) [0..<getNElements inp] (ent, w) =
        Returned (handled (getNElements inp) now (in_value inp) ent,
                  w @ handledPubs (getNElements inp) f now (in_value inp) ent)"
      by (intro elements_loop_handled) (simp_all add: entryReady_def)
    with True show ?thesis
      using Cons.IH [OF rest, of "w @ handledPubs (getNElements inp) f now (in_value inp) ent"]
      by (simp add: acc turnAccessor_def turnPubs_def)
  qed
qed

lemma Update_ready:
  assumes "\<forall>acc \<in> set (accessorListMap s ut). getId (fst acc) = tid \<longrightarrow> entryReady acc"
  shows "Update now tid ut s =
           Returned (s\<lparr>accessorListMap :=
                         (accessorListMap s)(ut := map (turnAccessor now tid) (accessorListMap s ut)),
                       written := written s @
                         concat (map (turnPubs (0 < dataFaultCounter s) now tid)
                                   (accessorListMap s ut))\<rparr>)"
  by (simp add: Update_def Update_list_ready [OF assms])

lemma Update_kinds:
  assumes "distinct uts"
    and "\<forall>ut \<in> set uts. \<forall>acc \<in> set (accessorListMap s ut). getId (fst acc) = tid \<longrightarrow> entryReady acc"
  shows "for_each (Update now tid) uts s =
           Returned (s\<lparr>accessorListMap :=
                         (\<lambda>ut. if ut \<in> set uts then map (turnAccessor now tid) (accessorListMap s ut)
                               else accessorListMap s ut),
                       written := written s @
                         concat (map (\<lambda>ut. concat (map (turnPubs (0 < dataFaultCounter s) now tid)
                                                      (accessorListMap s ut))) uts)\<rparr>)"
  using assms
proof (induction uts arbitrary: s)
  case Nil
  show ?case by simp
next
  case (Cons u uts)
  let ?s1 = "s\<lparr>accessorListMap :=
                 (accessorListMap s)(u := map (turnAccessor now tid) (accessorListMap s u)),
               written := written s @
                 concat (map (turnPubs (0 < dataFaultCounter s) now tid) (accessorListMap s u))\<rparr>"
  from Cons.prems have first: "Update now tid u s = Returned ?s1"
    by (intro Update_ready) simp
  from Cons.prems have fresh: "u \<notin> set uts" and dist: "distinct uts" by simp_all
  have same: "accessorListMap ?s1 ut = accessorListMap s ut" if "ut \<in> set uts" for ut
    using that fresh by auto
  have ready: "\<forall>ut \<in> set uts. \<forall>acc \<in> set (accessorListMap ?s1 ut).
                 getId (fst acc) = tid \<longrightarrow> entryReady acc"
    using Cons.prems(2) fresh by auto
  have pubs: "map (\<lambda>ut. concat (map (turnPubs (0 < dataFaultCounter ?s1) now tid)
                                  (accessorListMap ?s1 ut))) uts
            = map (\<lambda>ut. concat (map (turnPubs (0 < dataFaultCounter s) now tid)
                                  (accessorListMap s ut))) uts"
    using fresh by (intro map_cong) auto
  have accs: "(\<lambda>ut. if ut \<in> set uts then map (turnAccessor now tid) (accessorListMap ?s1 ut)
                     else accessorListMap ?s1 ut)
            = (\<lambda>ut. if ut \<in> set (u # uts) then map (turnAccessor now tid) (accessorListMap s ut)
                     else accessorListMap s ut)"
    using fresh by (auto simp: fun_eq_iff)
  show ?case
    unfolding for_each.simps first outcome.case Cons.IH [OF dist ready] pubs accs
    by simp
qed

lemma readAny_deliver:
  "readAny n s = s\<lparr>accessorListMap := (\<lambda>ut. map (deliver n) (accessorListMap s ut))\<rparr>"
proof -
  have "(\<lambda>(inp, ent). if getId inp = note_id n then (inp\<lparr>in_value := note_value n\<rparr>, ent)
                       else (inp, ent)) = deliver n"
    by (auto simp: fun_eq_iff deliver_def)
  then show ?thesis by (simp add: readAny_def)
qed

lemma mainLoop_body_step:
  assumes "accepts s n"
  shows "mainLoop_body n s =
           Returned (s\<lparr>accessorListMap := (\<lambda>ut. map (stepAccessor n) (accessorListMap s ut)),
                       written := written s @
                         concat (map (\<lambda>ut. concat (map (stepPubs (0 < dataFaultCounter s) n)
                                                      (accessorListMap s ut))) userTypes)\<rparr>)"
proof -
  let ?s0 = "s\<lparr>accessorListMap := (\<lambda>ut. map (deliver n) (accessorListMap s ut))\<rparr>"
  have id: "getId (fst (deliver n acc)) = getId (fst acc)" for acc :: "'a ArrayPushInput \<times> 'a HistoryEntry"
    by (simp add: deliver_def getId_def)
  have ready: "\<forall>ut \<in> set userTypes. \<forall>acc \<in> set (accessorListMap ?s0 ut).
                 getId (fst acc) = note_id n \<longrightarrow> entryReady acc"
    using assms by (auto simp: accepts_def id)
  have acc: "stepAccessor n = (\<lambda>x. turnAccessor (note_time n) (note_id n) (deliver n x))"
    and pubs: "stepPubs f n = (\<lambda>x. turnPubs f (note_time n) (note_id n) (deliver n x))" for f
    by (simp_all add: fun_eq_iff stepAccessor_def stepPubs_def)
  show ?thesis
    unfolding mainLoop_body_def readAny_deliver
      Update_kinds [OF distinct_userTypes ready, of "note_time n"]
    by (simp add: set_userTypes acc pubs comp_def)
qed

lemma rotate_write_tl: "b \<noteq> [] \<Longrightarrow> rotate_write b v = tl b @ [v]"
  by (cases b) (simp_all add: rotate_write_def)

lemma stepPubs_other: "getId (fst acc) \<noteq> note_id n \<Longrightarrow> stepPubs f n acc = []"
  by (simp add: stepPubs_def turnPubs_def deliver_def)

lemma stepAccessor_other: "getId (fst acc) \<noteq> note_id n \<Longrightarrow> stepAccessor n acc = acc"
  by (simp add: stepAccessor_def turnAccessor_def deliver_def)

lemma stepAccessor_notified:
  "getId (fst acc) = note_id n \<Longrightarrow>
   stepAccessor n acc =
     ((fst acc)\<lparr>in_value := note_value n\<rparr>,
      handled (length (note_value n)) (note_time n) (note_value n) (snd acc))"
  by (simp add: stepAccessor_def turnAccessor_def deliver_def getId_def getNElements_def)

lemma stepPubs_notified:
  "getId (fst acc) = note_id n \<Longrightarrow>
   stepPubs f n acc = handledPubs (length (note_value n)) f (note_time n) (note_value n) (snd acc)"
  by (simp add: stepPubs_def turnPubs_def deliver_def getId_def getNElements_def)

lemma handled_data_rotated:
  "k < m \<Longrightarrow> k < length (data ent) \<Longrightarrow> data (handled m now vals ent) ! k = rotatedData vals ent k"
  unfolding handled_def by simp

lemma handled_timeStamp_rotated:
  "k < m \<Longrightarrow> k < length (timeStamp ent) \<Longrightarrow> withTimeStamps ent \<Longrightarrow>
   timeStamp (handled m now vals ent) ! k = rotatedStamp now ent k"
  unfolding handled_def by simp

lemma handled_timeStamp_plain:
  "\<not> withTimeStamps ent \<Longrightarrow> timeStamp (handled m now vals ent) = timeStamp ent"
  unfolding handled_def by (simp add: map_nth)

lemma handledPubs_names:
  "map pub_name (handledPubs m f now vals ent) =
     concat (map (\<lambda>k. out_name (data ent ! k) #
                       (if withTimeStamps ent then [out_name (timeStamp ent ! k)] else []))
               [0..<m])"
  by (induction m)
    (simp_all add: handledPubs_def publish_def rotatedData_def rotatedStamp_def)

lemma entryReady_buffers:
  assumes "entryReady acc"
  shows "k < getNElements (fst acc) \<Longrightarrow> buffer (data (snd acc) ! k) \<noteq> []"
    and "k < getNElements (fst acc) \<Longrightarrow> withTimeStamps (snd acc) \<Longrightarrow>
         buffer (timeStamp (snd acc) ! k) \<noteq> []"
  using assms
  by (auto simp: entryReady_def noEmptyBuffer_def entryLayout_def outputLayout_def list_all_iff)

lemma entryReady_deliver_iff:
  "getId (fst acc) = note_id n \<Longrightarrow>
   entryReady (deliver n acc) \<longleftrightarrow>
     (length (data (snd acc)) = length (note_value n)
      \<and> (withTimeStamps (snd acc) \<longrightarrow> length (timeStamp (snd acc)) = length (note_value n))
      \<and> noEmptyBuffer (entryLayout (snd acc)))"
  by (simp add: entryReady_def deliver_def getNElements_def)

subsection \<open>Demultiplexing\<close>

lemma concat_map_single:
  assumes "i < length xs" and "\<forall>j < length xs. j \<noteq> i \<longrightarrow> g (xs ! j) = []"
  shows "concat (map g xs) = g (xs ! i)"
proof -
  have split: "xs = take i xs @ xs ! i # drop (Suc i) xs"
    using assms(1) by (rule id_take_nth_drop)
  have before: "concat (map g (take i xs)) = []"
    using assms by (auto simp: in_set_conv_nth)
  have after: "concat (map g (drop (Suc i) xs)) = []"
    using assms by (auto simp: in_set_conv_nth)
  have "concat (map g xs) = concat (map g (take i xs @ xs ! i # drop (Suc i) xs))"
    using split by simp
  also have "\<dots> = g (xs ! i)"
    by (simp only: map_append concat_append list.map concat.simps before after
        append_Nil append_Nil2)
  finally show ?thesis .
qed

lemma publications_of_one:
  assumes "uniqueIds s" and "i < length (accessorListMap s ut)"
    and "getId (fst (accessorListMap s ut ! i)) = note_id n"
  shows "concat (map (\<lambda>u. concat (map (stepPubs f n) (accessorListMap s u))) userTypes)
           = stepPubs f n (accessorListMap s ut ! i)"
proof -
  have only: "getId (fst (accessorListMap s u ! j)) \<noteq> note_id n"
    if "j < length (accessorListMap s u)" "(u, j) \<noteq> (ut, i)" for u j
    using that assms unfolding uniqueIds_def set_userTypes by (metis UNIV_I)
  have here: "concat (map (stepPubs f n) (accessorListMap s ut))
                = stepPubs f n (accessorListMap s ut ! i)"
    using assms(2) only by (intro concat_map_single) (auto simp: stepPubs_other)
  have elsewhere: "concat (map (stepPubs f n) (accessorListMap s u)) = []" if "u \<noteq> ut" for u
  proof -
    have "stepPubs f n acc = []" if "acc \<in> set (accessorListMap s u)" for acc
    proof -
      from that obtain j where "j < length (accessorListMap s u)" "accessorListMap s u ! j = acc"
        by (auto simp: in_set_conv_nth)
      with only [of j u] \<open>u \<noteq> ut\<close> show ?thesis
        by (auto simp: stepPubs_other)
    qed
    then show ?thesis by simp
  qed
  obtain k where k: "k < length userTypes" "userTypes ! k = ut"
    using set_userTypes by (metis UNIV_I in_set_conv_nth)
  have "concat (map (\<lambda>u. concat (map (stepPubs f n) (accessorListMap s u))) userTypes)
          = concat (map (stepPubs f n) (accessorListMap s (userTypes ! k)))"
  proof (rule concat_map_single [OF k(1)], intro allI impI)
    fix j assume "j < length userTypes" "j \<noteq> k"
    then have "userTypes ! j \<noteq> ut"
      using k distinct_userTypes by (auto simp: nth_eq_iff_index_eq)
    then show "concat (map (stepPubs f n) (accessorListMap s (userTypes ! j))) = []"
      by (rule elsewhere)
  qed
  then show ?thesis by (simp add: k here)
qed

text \<open>
  C7. Let no two accessors of the registry have the same identity, and let the
  notification carry the identity of the accessor \<open>A\<close> (at place \<open>i\<close> of the list of the
  kind \<open>utA\<close>) and fit it. Then the turn of the loop returns normally; every accessor at
  another place, of the same kind or not, is exactly as before; each data buffer of \<open>A\<close>
  has lost its first slot and gained the new element as its last, and so has each time
  stamp buffer when time stamps are enabled; and what is published in this turn are the
  outputs of \<open>A\<close> and nothing else.
\<close>

theorem demultiplexing:
  assumes "accepts s n" and "uniqueIds s"
    and "i < length (accessorListMap s utA)"
    and "getId (fst (accessorListMap s utA ! i)) = note_id n"
  shows "(let A = accessorListMap s utA ! i;
              r = mainLoop_body n s;
              s' = state_of r;
              A' = accessorListMap s' utA ! i
          in \<not> has_thrown r
             \<and> (\<forall>ut. length (accessorListMap s' ut) = length (accessorListMap s ut))
             \<and> (\<forall>utB j. j < length (accessorListMap s utB) \<longrightarrow> (utB, j) \<noteq> (utA, i) \<longrightarrow>
                   accessorListMap s' utB ! j = accessorListMap s utB ! j)
             \<and> (\<forall>k < length (note_value n).
                   buffer (data (snd A') ! k) = tl (buffer (data (snd A) ! k)) @ [note_value n ! k])
             \<and> (withTimeStamps (snd A) \<longrightarrow>
                  (\<forall>k < length (note_value n).
                     buffer (timeStamp (snd A') ! k) =
                       tl (buffer (timeStamp (snd A) ! k)) @ [note_time n k]))
             \<and> (\<not> withTimeStamps (snd A) \<longrightarrow> timeStamp (snd A') = timeStamp (snd A))
             \<and> written s' = written s @ stepPubs (0 < dataFaultCounter s) n A
             \<and> map pub_name (stepPubs (0 < dataFaultCounter s) n A) =
                 concat (map (\<lambda>k. out_name (data (snd A) ! k) #
                                   (if withTimeStamps (snd A) then [out_name (timeStamp (snd A) ! k)]
                                    else []))
                           [0..<length (note_value n)]))"
proof -
  let ?A = "accessorListMap s utA ! i"
  let ?m = "length (note_value n)"
  let ?f = "0 < dataFaultCounter s"
  let ?s' = "s\<lparr>accessorListMap := (\<lambda>ut. map (stepAccessor n) (accessorListMap s ut)),
              written := written s @
                concat (map (\<lambda>ut. concat (map (stepPubs ?f n) (accessorListMap s ut))) userTypes)\<rparr>"
  have step: "mainLoop_body n s = Returned ?s'"
    by (rule mainLoop_body_step [OF assms(1)])
  have A': "accessorListMap ?s' utA ! i =
      ((fst ?A)\<lparr>in_value := note_value n\<rparr>, handled ?m (note_time n) (note_value n) (snd ?A))"
    using assms(3,4) by (simp add: stepAccessor_notified)
  have "?A \<in> set (accessorListMap s utA)"
    using assms(3) by simp
  with assms(1,4) have ready: "entryReady (deliver n ?A)"
    unfolding accepts_def set_userTypes by blast
  have del: "deliver n ?A = ((fst ?A)\<lparr>in_value := note_value n\<rparr>, snd ?A)"
    using assms(4) by (simp add: deliver_def)
  have count: "length (data (snd ?A)) = ?m"
    and stampCount: "withTimeStamps (snd ?A) \<Longrightarrow> length (timeStamp (snd ?A)) = ?m"
    using ready unfolding del by (simp_all add: entryReady_def getNElements_def)
  have filled: "buffer (data (snd ?A) ! k) \<noteq> []" if "k < ?m" for k
    using entryReady_buffers(1) [OF ready, of k] that unfolding del
    by (simp add: getNElements_def)
  have stampFilled: "buffer (timeStamp (snd ?A) ! k) \<noteq> []"
    if "k < ?m" "withTimeStamps (snd ?A)" for k
    using entryReady_buffers(2) [OF ready, of k] that unfolding del
    by (simp add: getNElements_def)
  have c1: "\<not> has_thrown (mainLoop_body n s)"
    by (simp add: step)
  have c2: "\<forall>ut. length (accessorListMap (state_of (mainLoop_body n s)) ut)
                  = length (accessorListMap s ut)"
    by (simp add: step)
  have c3: "\<forall>utB j. j < length (accessorListMap s utB) \<longrightarrow> (utB, j) \<noteq> (utA, i) \<longrightarrow>
              accessorListMap (state_of (mainLoop_body n s)) utB ! j = accessorListMap s utB ! j"
  proof (intro allI impI)
    fix utB j assume j: "j < length (accessorListMap s utB)" and other: "(utB, j) \<noteq> (utA, i)"
    have "getId (fst (accessorListMap s utB ! j)) \<noteq> note_id n"
      using j other assms(2,3,4) unfolding uniqueIds_def set_userTypes by (metis UNIV_I)
    then show "accessorListMap (state_of (mainLoop_body n s)) utB ! j = accessorListMap s utB ! j"
      using j by (simp add: step stepAccessor_other)
  qed
  have c4: "\<forall>k < ?m. buffer (data (snd (accessorListMap (state_of (mainLoop_body n s)) utA ! i)) ! k)
              = tl (buffer (data (snd ?A) ! k)) @ [note_value n ! k]"
    unfolding step state_of.simps A'
    using count filled
    by (simp add: handled_data_rotated rotatedData_def rotate_write_tl)
  have c5: "withTimeStamps (snd ?A) \<longrightarrow>
      (\<forall>k < ?m. buffer (timeStamp (snd (accessorListMap (state_of (mainLoop_body n s)) utA ! i)) ! k)
          = tl (buffer (timeStamp (snd ?A) ! k)) @ [note_time n k])"
    unfolding step state_of.simps A'
    using stampCount stampFilled
    by (simp add: handled_timeStamp_rotated rotatedStamp_def rotate_write_tl)
  have c6: "\<not> withTimeStamps (snd ?A) \<longrightarrow>
      timeStamp (snd (accessorListMap (state_of (mainLoop_body n s)) utA ! i)) = timeStamp (snd ?A)"
    unfolding step state_of.simps A' by (simp add: handled_timeStamp_plain)
  have c7: "written (state_of (mainLoop_body n s)) = written s @ stepPubs ?f n ?A"
    unfolding step state_of.simps
    by (simp add: publications_of_one [OF assms(2,3,4)])
  have c8: "map pub_name (stepPubs ?f n ?A) =
      concat (map (\<lambda>k. out_name (data (snd ?A) ! k) #
                        (if withTimeStamps (snd ?A) then [out_name (timeStamp (snd ?A) ! k)] else []))
                [0..<?m])"
    by (simp add: stepPubs_notified [OF assms(4)] handledPubs_names)
  show ?thesis
    unfolding Let_def using c1 c2 c3 c4 c5 c6 c7 c8 by (intro conjI)
qed

theorem demultiplexing_witness:
  "accepts example_two (observed 42)
   \<and> uniqueIds example_two
   \<and> 0 < length (accessorListMap example_two Int32)
   \<and> getId (fst (accessorListMap example_two Int32 ! 0)) = note_id (observed 42)
   \<and> \<not> has_thrown (mainLoop_body (observed 42) example_two)
   \<and> accessorListMap (state_of (mainLoop_body (observed 42) example_two)) Int32 ! 1
       = accessorListMap example_two Int32 ! 1
   \<and> buffer (data (snd (accessorListMap (state_of (mainLoop_body (observed 42) example_two))
        Int32 ! 0)) ! 0) = replicate 19 0 @ [42]
   \<and> map pub_name (written (state_of (mainLoop_body (observed 42) example_two)))
       = [''/History/Dummy/out'']"
proof -
  have acc: "accepts example_two (observed 42)"
    by (simp add: accepts_def userTypes_def example_two_eq observed_def getId_def deliver_def
        entryReady_def getNElements_def noEmptyBuffer_def entryLayout_def outputLayout_def)
  have uniq: "uniqueIds example_two"
    by (simp add: uniqueIds_def userTypes_def example_two_eq getId_def less_Suc_eq
        all_conj_distrib)
  have pos: "0 < length (accessorListMap example_two Int32)"
    by (simp add: example_two_eq)
  have id: "getId (fst (accessorListMap example_two Int32 ! 0)) = note_id (observed 42)"
    by (simp add: example_two_eq getId_def observed_def)
  note inst = demultiplexing [OF acc uniq pos id, unfolded Let_def]
  from inst have returned: "\<not> has_thrown (mainLoop_body (observed 42) example_two)"
    by blast
  have other: "1 < length (accessorListMap example_two Int32)" "(Int32, 1::nat) \<noteq> (Int32, 0)"
    by (simp_all add: example_two_eq)
  from inst other
  have unchanged: "accessorListMap (state_of (mainLoop_body (observed 42) example_two)) Int32 ! 1
       = accessorListMap example_two Int32 ! 1"
    by blast
  have one: "0 < length (note_value (observed 42))"
    by (simp add: observed_def)
  from inst one
  have "buffer (data (snd (accessorListMap (state_of (mainLoop_body (observed 42) example_two))
          Int32 ! 0)) ! 0)
        = tl (buffer (data (snd (accessorListMap example_two Int32 ! 0)) ! 0))
          @ [note_value (observed 42) ! 0]"
    by blast
  then have rotated: "buffer (data (snd (accessorListMap
      (state_of (mainLoop_body (observed 42) example_two)) Int32 ! 0)) ! 0) = replicate 19 0 @ [42]"
    by (simp add: example_two_eq observed_def)
  from inst
  have "written (state_of (mainLoop_body (observed 42) example_two))
        = written example_two
          @ stepPubs (0 < dataFaultCounter example_two) (observed 42)
              (accessorListMap example_two Int32 ! 0)"
    and "map pub_name (stepPubs (0 < dataFaultCounter example_two) (observed 42)
              (accessorListMap example_two Int32 ! 0))
        = concat (map (\<lambda>k. out_name (data (snd (accessorListMap example_two Int32 ! 0)) ! k) #
                     (if withTimeStamps (snd (accessorListMap example_two Int32 ! 0))
                      then [out_name (timeStamp (snd (accessorListMap example_two Int32 ! 0)) ! k)]
                      else []))
             [0..<length (note_value (observed 42))])"
    by blast+
  then have published: "map pub_name (written (state_of (mainLoop_body (observed 42) example_two)))
       = [''/History/Dummy/out'']"
    by (simp add: example_two_eq observed_def example_module_def initial_def)
  from acc uniq pos id returned unchanged rotated published show ?thesis
    by blast
qed

subsection \<open>Rotation\<close>

lemma outputLayout_rotated:
  "outputLayout (rotatedData vals ent i) = outputLayout (data ent ! i)"
  "outputLayout (rotatedStamp now ent i) = outputLayout (timeStamp ent ! i)"
  by (simp_all add: outputLayout_def rotatedData_def rotatedStamp_def)

lemma entryLayout_handled: "entryLayout (handled k now vals ent) = entryLayout ent"
proof -
  have "map outputLayout (data (handled k now vals ent)) = map outputLayout (data ent)"
    unfolding handled_def by (rule nth_equalityI) (simp_all add: outputLayout_rotated)
  moreover have "map outputLayout (timeStamp (handled k now vals ent))
                   = map outputLayout (timeStamp ent)"
    unfolding handled_def by (rule nth_equalityI) (simp_all add: outputLayout_rotated)
  ultimately show ?thesis
    by (simp add: entryLayout_def handled_fields)
qed

lemma stepAccessor_keeps:
  "getId (fst (stepAccessor m acc)) = getId (fst acc)"
  "entryLayout (snd (stepAccessor m acc)) = entryLayout (snd acc)"
  "length (data (snd (stepAccessor m acc))) = length (data (snd acc))"
  "length (timeStamp (snd (stepAccessor m acc))) = length (timeStamp (snd acc))"
  "withTimeStamps (snd (stepAccessor m acc)) = withTimeStamps (snd acc)"
  by (simp_all add: stepAccessor_def turnAccessor_def deliver_def getId_def entryLayout_handled
      handled_fields)

lemma accepts_stepModule: "accepts (stepModule m s) n = accepts s n"
  by (simp add: accepts_def stepModule_def entryReady_deliver_iff stepAccessor_keeps
      cong: ball_cong)

lemma mainLoop_run:
  assumes "\<forall>n \<in> set ns. accepts s n"
  shows "mainLoop ns s = Returned (foldl (\<lambda>a n. stepModule n a) s ns)"
  using assms unfolding mainLoop_def
proof (induction ns arbitrary: s)
  case Nil
  show ?case by simp
next
  case (Cons n ns)
  then have "mainLoop_body n s = Returned (stepModule n s)"
    by (simp add: mainLoop_body_step stepModule_def)
  moreover have "\<forall>m \<in> set ns. accepts (stepModule n s) m"
    using Cons.prems by (simp add: accepts_stepModule)
  ultimately show ?case
    using Cons.IH [of "stepModule n s"] by simp
qed

lemma accessorListMap_run:
  "accessorListMap (foldl (\<lambda>a n. stepModule n a) s ns) ut =
     map (\<lambda>acc. foldl (\<lambda>a n. stepAccessor n a) acc ns) (accessorListMap s ut)"
  by (induction ns arbitrary: s) (simp_all add: stepModule_def comp_def)

lemma foldl_rotate_write:
  "b \<noteq> [] \<Longrightarrow> foldl rotate_write b vs = drop (length vs) (b @ vs)"
proof (induction vs arbitrary: b)
  case Nil
  show ?case by simp
next
  case (Cons v vs)
  then obtain x xs where b: "b = x # xs" by (cases b) auto
  have "foldl rotate_write (rotate_write b v) vs = drop (length vs) (rotate_write b v @ vs)"
    by (rule Cons.IH) (simp add: b rotate_write_tl)
  then show ?case
    by (simp add: b rotate_write_tl)
qed

lemma scalar_run:
  assumes "\<forall>n \<in> set ns. note_id n = getId (fst acc) \<and> length (note_value n) = 1"
    and "data (snd acc) = [d]"
  shows "data (snd (foldl (\<lambda>a n. stepAccessor n a) acc ns)) =
           [d\<lparr>buffer := foldl rotate_write (buffer d) (map (\<lambda>n. hd (note_value n)) ns)\<rparr>]"
  using assms
proof (induction ns arbitrary: acc d)
  case Nil
  then show ?case by simp
next
  case (Cons n ns)
  from Cons.prems(1) have n: "getId (fst acc) = note_id n" "length (note_value n) = 1"
    by simp_all
  then obtain v where v: "note_value n = [v]"
    by (cases "note_value n") simp_all
  have one: "data (snd (stepAccessor n acc)) = [d\<lparr>buffer := rotate_write (buffer d) v\<rparr>]"
    unfolding stepAccessor_notified [OF n(1)] handled_def
    by (simp add: v Cons.prems(2) rotatedData_def)
  have rest: "\<forall>m \<in> set ns. note_id m = getId (fst (stepAccessor n acc)) \<and> length (note_value m) = 1"
    using Cons.prems(1) by (simp add: stepAccessor_keeps)
  show ?case
    using Cons.IH [OF rest one] by (simp add: v)
qed

lemma tl_drop_snoc: "k < length xs \<Longrightarrow> tl (drop k xs) @ [v] = drop (Suc k) (xs @ [v])"
  by (cases xs) (simp_all add: tl_drop drop_Suc)

lemma sole_accepts:
  assumes "uniqueIds s" and "i < length (accessorListMap s ut)"
    and "getId (fst (accessorListMap s ut ! i)) = note_id n"
    and "entryReady (accessorListMap s ut ! i)"
    and "length (note_value n) = getNElements (fst (accessorListMap s ut ! i))"
  shows "accepts s n"
  unfolding accepts_def set_userTypes
proof (intro ballI impI)
  fix u acc
  assume acc: "acc \<in> set (accessorListMap s u)" and id: "getId (fst acc) = note_id n"
  from acc obtain j where j: "j < length (accessorListMap s u)" "accessorListMap s u ! j = acc"
    by (auto simp: in_set_conv_nth)
  have "u = ut \<and> j = i"
    using assms(1,2,3) j id unfolding uniqueIds_def set_userTypes by (metis UNIV_I)
  with j have "acc = accessorListMap s ut ! i" by simp
  with assms(3,4,5) show "entryReady (deliver n acc)"
    by (simp add: entryReady_deliver_iff) (simp add: entryReady_def)
qed

text \<open>
  C1. Let a scalar be registered: its accessor is ready, has one element, and no other
  accessor has its identity. Let its data buffer be \<open>len\<close> value-initialised slots. After
  \<open>k\<close> observations of it, with the values \<open>vs\<close> in the order of delivery, the loop has
  not thrown and the buffer is \<open>len - k\<close> value-initialised slots followed by \<open>vs\<close> when
  \<open>k < len\<close>, and the last \<open>len\<close> values of \<open>vs\<close>, the newest last, when \<open>k \<ge> len\<close>.
  One more observation rotates the buffer left by one and overwrites the last slot.
\<close>

theorem rotation_correctness:
  assumes "uniqueIds s" and "i < length (accessorListMap s ut)"
    and "getId (fst (accessorListMap s ut ! i)) = tid"
    and "entryReady (accessorListMap s ut ! i)"
    and "getNElements (fst (accessorListMap s ut ! i)) = 1"
    and "buffer (hd (data (snd (accessorListMap s ut ! i)))) = replicate len z"
    and "\<forall>n \<in> set ns. note_id n = tid \<and> length (note_value n) = 1"
  shows "(let r = mainLoop ns s;
              vs = map (\<lambda>n. hd (note_value n)) ns;
              k = length ns;
              b = buffer (hd (data (snd (accessorListMap (state_of r) ut ! i))))
          in \<not> has_thrown r
             \<and> length (data (snd (accessorListMap (state_of r) ut ! i))) = 1
             \<and> length b = len
             \<and> (k < len \<longrightarrow> b = replicate (len - k) z @ vs)
             \<and> (len \<le> k \<longrightarrow> b = drop (k - len) vs)
             \<and> (\<forall>m. note_id m = tid \<and> length (note_value m) = 1 \<longrightarrow>
                    buffer (hd (data (snd (accessorListMap
                      (state_of (mainLoop (ns @ [m]) s)) ut ! i))))
                    = (rotate1 b)[len - 1 := hd (note_value m)]))"
proof -
  let ?A = "accessorListMap s ut ! i"
  let ?vs = "\<lambda>ms. map (\<lambda>n. hd (note_value n)) ms"
  from assms(4,5) have "length (data (snd ?A)) = 1"
    by (simp add: entryReady_def)
  then obtain d where d: "data (snd ?A) = [d]"
    by (cases "data (snd ?A)") simp_all
  with assms(6) have bd: "buffer d = replicate len z"
    by simp
  have "buffer d \<noteq> []"
    using assms(4) d
    by (simp add: entryReady_def noEmptyBuffer_def entryLayout_def outputLayout_def)
  with bd have positive: "0 < len"
    by auto
  have run: "mainLoop ms s = Returned (foldl (\<lambda>a n. stepModule n a) s ms)"
    and buf: "data (snd (accessorListMap (state_of (mainLoop ms s)) ut ! i))
               = [d\<lparr>buffer := drop (length ms) (replicate len z @ ?vs ms)\<rparr>]"
    if ms: "\<forall>n \<in> set ms. note_id n = tid \<and> length (note_value n) = 1" for ms
  proof -
    have "\<forall>n \<in> set ms. accepts s n"
      using ms assms(3,5) by (auto intro!: sole_accepts [OF assms(1,2) _ assms(4)])
    then show run: "mainLoop ms s = Returned (foldl (\<lambda>a n. stepModule n a) s ms)"
      by (rule mainLoop_run)
    have ids: "\<forall>n \<in> set ms. note_id n = getId (fst ?A) \<and> length (note_value n) = 1"
      using ms assms(3) by simp
    have "accessorListMap (state_of (mainLoop ms s)) ut
            = map (\<lambda>acc. foldl (\<lambda>a n. stepAccessor n a) acc ms) (accessorListMap s ut)"
      unfolding run state_of.simps by (rule accessorListMap_run)
    then have "accessorListMap (state_of (mainLoop ms s)) ut ! i
            = foldl (\<lambda>a n. stepAccessor n a) ?A ms"
      using assms(2) by simp
    then have "data (snd (accessorListMap (state_of (mainLoop ms s)) ut ! i))
            = data (snd (foldl (\<lambda>a n. stepAccessor n a) ?A ms))"
      by (simp only:)
    also have "\<dots> = [d\<lparr>buffer := foldl rotate_write (buffer d) (?vs ms)\<rparr>]"
      by (rule scalar_run [OF ids d])
    also have "foldl rotate_write (buffer d) (?vs ms) = drop (length ms) (replicate len z @ ?vs ms)"
      using positive by (simp add: foldl_rotate_write bd)
    finally show "data (snd (accessorListMap (state_of (mainLoop ms s)) ut ! i))
               = [d\<lparr>buffer := drop (length ms) (replicate len z @ ?vs ms)\<rparr>]" .
  qed
  let ?b = "buffer (hd (data (snd (accessorListMap (state_of (mainLoop ns s)) ut ! i))))"
  have b: "?b = drop (length ns) (replicate len z @ ?vs ns)"
    unfolding buf [OF assms(7)] by simp
  have c1: "\<not> has_thrown (mainLoop ns s)"
    unfolding run [OF assms(7)] by simp
  have c2: "length (data (snd (accessorListMap (state_of (mainLoop ns s)) ut ! i))) = 1"
    unfolding buf [OF assms(7)] by simp
  have c3: "length ?b = len"
    unfolding b by simp
  have c4: "length ns < len \<longrightarrow> ?b = replicate (len - length ns) z @ ?vs ns"
    unfolding b by simp
  have c5: "len \<le> length ns \<longrightarrow> ?b = drop (length ns - len) (?vs ns)"
    unfolding b by simp
  have c6: "\<forall>m. note_id m = tid \<and> length (note_value m) = 1 \<longrightarrow>
              buffer (hd (data (snd (accessorListMap (state_of (mainLoop (ns @ [m]) s)) ut ! i))))
              = (rotate1 ?b)[len - 1 := hd (note_value m)]"
  proof (intro allI impI)
    fix m :: "'a notification"
    assume m: "note_id m = tid \<and> length (note_value m) = 1"
    let ?v = "hd (note_value m)"
    have more: "\<forall>n \<in> set (ns @ [m]). note_id n = tid \<and> length (note_value n) = 1"
      using assms(7) m by simp
    have "?b \<noteq> []"
      using c3 positive by auto
    then have "(rotate1 ?b)[len - 1 := ?v] = tl ?b @ [?v]"
      using rotate_write_tl [of ?b ?v] c3 by (simp add: rotate_write_def)
    also have "\<dots> = drop (Suc (length ns)) ((replicate len z @ ?vs ns) @ [?v])"
      unfolding b using positive by (intro tl_drop_snoc) simp
    finally show "buffer (hd (data (snd (accessorListMap
                (state_of (mainLoop (ns @ [m]) s)) ut ! i))))
              = (rotate1 ?b)[len - 1 := ?v]"
      unfolding buf [OF more] by simp
  qed
  show ?thesis
    unfolding Let_def using c1 c2 c3 c4 c5 c6 by (intro conjI)
qed

theorem rotation_correctness_witness:
  "uniqueIds example_two
   \<and> 0 < length (accessorListMap example_two Int32)
   \<and> getId (fst (accessorListMap example_two Int32 ! 0)) = 7
   \<and> entryReady (accessorListMap example_two Int32 ! 0)
   \<and> getNElements (fst (accessorListMap example_two Int32 ! 0)) = 1
   \<and> buffer (hd (data (snd (accessorListMap example_two Int32 ! 0)))) = replicate 20 0
   \<and> note_id (observed 42) = 7 \<and> length (note_value (observed 42)) = 1
   \<and> \<not> has_thrown (mainLoop [observed 42, observed 42] example_two)
   \<and> buffer (hd (data (snd (accessorListMap
        (state_of (mainLoop [observed 42, observed 42] example_two)) Int32 ! 0))))
      = replicate 18 0 @ [42, 42]"
proof -
  have uniq: "uniqueIds example_two"
    by (simp add: uniqueIds_def userTypes_def example_two_eq getId_def less_Suc_eq
        all_conj_distrib)
  have pos: "0 < length (accessorListMap example_two Int32)"
    by (simp add: example_two_eq)
  have id: "getId (fst (accessorListMap example_two Int32 ! 0)) = 7"
    by (simp add: example_two_eq getId_def)
  have ready: "entryReady (accessorListMap example_two Int32 ! 0)"
    by (simp add: example_two_eq entryReady_def getNElements_def noEmptyBuffer_def
        entryLayout_def outputLayout_def)
  have scalar: "getNElements (fst (accessorListMap example_two Int32 ! 0)) = 1"
    by (simp add: example_two_eq getNElements_def)
  have filled: "buffer (hd (data (snd (accessorListMap example_two Int32 ! 0)))) = replicate 20 0"
    by (simp add: example_two_eq)
  have obs: "note_id (observed 42) = 7 \<and> length (note_value (observed 42)) = 1"
    by (simp add: observed_def)
  have all: "\<forall>n \<in> set [observed 42, observed 42]. note_id n = 7 \<and> length (note_value n) = 1"
    by (simp add: observed_def)
  note inst = rotation_correctness [OF uniq pos id ready scalar filled all, unfolded Let_def]
  from inst have returned: "\<not> has_thrown (mainLoop [observed 42, observed 42] example_two)"
    by blast
  from inst have "length [observed 42, observed 42] < (20::nat) \<longrightarrow>
      buffer (hd (data (snd (accessorListMap
        (state_of (mainLoop [observed 42, observed 42] example_two)) Int32 ! 0))))
      = replicate (20 - length [observed 42, observed 42]) 0
        @ map (\<lambda>n. hd (note_value n)) [observed 42, observed 42]"
    by blast
  then have "buffer (hd (data (snd (accessorListMap
        (state_of (mainLoop [observed 42, observed 42] example_two)) Int32 ! 0))))
      = replicate 18 0 @ [42, 42]"
    by (simp add: observed_def)
  with uniq pos id ready scalar filled obs returned show ?thesis by blast
qed

subsection \<open>The tests of the repository, in the model\<close>

text \<open>
  \<^verbatim>\<open>testScalarHistory\<close>: the value 42 is written once, then once more, and the history of
  20 slots ends with it. \<^verbatim>\<open>testArrayHistory\<close>: an array of three elements is written
  twice, and each element has its own history. \<^verbatim>\<open>testNoVarsFound\<close>: with the tag
  \<^verbatim>\<open>History\<close>, which no variable carries, the module has no variable and the start of the
  application throws.
\<close>

lemma testScalarHistory:
  "map (\<lambda>acc. map buffer (data (snd acc)))
     (accessorListMap (state_of (mainLoop [observed 42] example_registered)) Int32)
   = [[[0, 0, 0, 0, 0, 0, 0, 0, 0, 0, 0, 0, 0, 0, 0, 0, 0, 0, 0, 42]]]"
  "map (\<lambda>acc. map buffer (data (snd acc)))
     (accessorListMap (state_of (mainLoop [observed 42, observed 42] example_registered)) Int32)
   = [[[0, 0, 0, 0, 0, 0, 0, 0, 0, 0, 0, 0, 0, 0, 0, 0, 0, 0, 42, 42]]]"
  by code_simp+

lemma testArrayHistory:
  "map (\<lambda>acc. map (\<lambda>d. (out_name d, buffer d)) (data (snd acc)))
     (accessorListMap (state_of (mainLoop
        [\<lparr>note_id = 7, note_value = [42, 43, 44], note_time = (\<lambda>i. 0)\<rparr>,
         \<lparr>note_id = 7, note_value = [1, 2, 3], note_time = (\<lambda>i. 0)\<rparr>] array_module)) Int32)
   = [[(''/History/Dummy/out_0'', [0, 0, 0, 0, 0, 0, 0, 0, 0, 0, 0, 0, 0, 0, 0, 0, 0, 0, 42, 1]),
       (''/History/Dummy/out_1'', [0, 0, 0, 0, 0, 0, 0, 0, 0, 0, 0, 0, 0, 0, 0, 0, 0, 0, 43, 2]),
       (''/History/Dummy/out_2'', [0, 0, 0, 0, 0, 0, 0, 0, 0, 0, 0, 0, 0, 0, 0, 0, 0, 0, 44, 3])]]"
  by code_simp

lemma testNoVarsFound:
  "getNumberOfVariables (state_of (construct example_framework (Some [(example_pv, 7)])
      ''historyTest'' 20 ''History'' False ''History'' :: int ServerHistory outcome)) = 0"
  "has_thrown (prepare (state_of (construct example_framework (Some [(example_pv, 7)])
      ''historyTest'' 20 ''History'' False ''History'' :: int ServerHistory outcome)))"
  by code_simp+

end
